theory Spec2Isabelle
  imports Main
begin

section \<open>Polling utilities of e2e/utils/Utilities.ts\<close>

text \<open>
  The three pollers of \<^verbatim>\<open>Utilities\<close> (\<^verbatim>\<open>waitUntil\<close>,
  \<^verbatim>\<open>waitForElementToBeEnabled\<close>, \<^verbatim>\<open>waitForElementToStopMoving\<close>) are
  asynchronous loops over three capabilities of their environment: the clock
  (\<^verbatim>\<open>Date.now()\<close>), a timer wait, and a caller-supplied asynchronous call (the condition,
  or the element's \<^verbatim>\<open>getAttributes\<close>).

  Times and durations are integers (milliseconds, as \<^verbatim>\<open>Date.now()\<close> counts them);
  fractional durations, \<^verbatim>\<open>NaN\<close> and infinities of the JavaScript number type are outside
  the model.
\<close>

subsection \<open>The environment: clock, callbacks, timers, the trace of calls\<close>

text \<open>
  The world holds the clock and whatever state the caller's callbacks work on. An awaited
  call takes the world and gives back either the value it throws (\<open>Inl\<close>) or the value
  it resolves to (\<open>Inr\<close>), with the world as the call leaves it: a callback may take
  time (move the clock) and change its own state.
\<close>

record 's world =
  clock :: int
  env :: 's

type_synonym ('e, 's, 'a) async = "'s world \<Rightarrow> ('e + 'a) \<times> 's world"

text \<open>
  The attributes a native element reports: \<^verbatim>\<open>enabled\<close>, and \<^verbatim>\<open>frame\<close> (absent or an
  object). A coordinate of the frame is \<open>Some n\<close> when \<^verbatim>\<open>typeof\<close> gives
  \<^verbatim>\<open>'number'\<close> and \<open>None\<close> otherwise. A position is the \<^verbatim>\<open>{ x, y }\<close> object
  that \<^verbatim>\<open>getPosition\<close> returns.
\<close>

record frame =
  frame_x :: "int option"
  frame_y :: "int option"

record attributes =
  enabled :: bool
  frame :: "frame option"

record position =
  pos_x :: int
  pos_y :: int

text \<open>
  A native element is its \<^verbatim>\<open>getAttributes()\<close> method. The \<^verbatim>\<open>element\<close> argument of
  the pollers is a promise of one: \<open>Inl e\<close> a promise rejected with \<open>e\<close>, \<open>Inr el\<close>
  one resolved to \<open>el\<close>. Awaiting it takes no time.
\<close>

type_synonym ('e, 's) element = "('e, 's, attributes) async"

text \<open>
  What a poller throws: an \<^verbatim>\<open>Error\<close> object it creates itself, with its message, or
  the value \<open>e\<close> a callback threw, passed on as it is.
\<close>

datatype 'e thrown = Error string | Raised 'e

datatype 'e outcome = Resolved | Rejected "'e thrown"

text \<open>
  The trace records, in order, the calls a poller makes to its environment: each
  invocation of the condition with what it gave, each \<^verbatim>\<open>getAttributes()\<close> with what it
  gave, each timer wait with its duration. The callbacks do not see the trace.
\<close>

datatype 'e event =
  Condition "'e + bool"
| Get_attributes "'e + attributes"
| Timer int

type_synonym ('e, 's) state = "'s world \<times> 'e event list"

type_synonym ('e, 's) run = "('e outcome \<times> 's world \<times> 'e event list) option"

text \<open>
  A timer wait of \<open>d\<close> milliseconds (\<^verbatim>\<open>await new Promise((resolve) => setTimeout(resolve, d))\<close>
  and \<^verbatim>\<open>await asyncSetTimeout(d, null, { ref: false })\<close>): the task is suspended and the
  clock has advanced by exactly \<open>d\<close> when it resumes; a negative \<open>d\<close> does not move the
  clock back.
\<close>

definition suspend :: "int \<Rightarrow> ('e, 's) state \<Rightarrow> ('e, 's) state" where
  "suspend d st =
     (case st of (w, tr) \<Rightarrow> (w\<lparr>clock := clock w + max 0 d\<rparr>, tr @ [Timer d]))"

definition await :: "('e, 's, 'a) async \<Rightarrow> ('e + 'a \<Rightarrow> 'e event) \<Rightarrow> ('e, 's) state
    \<Rightarrow> ('e + 'a) \<times> ('e, 's) state" where
  "await call ev st =
     (case st of (w, tr) \<Rightarrow>
        (case call w of (r, w') \<Rightarrow> (r, (w', tr @ [ev r]))))"

subsection \<open>Template literals: a number in a message\<close>

text \<open>
  \<^verbatim>\<open>`${timeout}`\<close> is the language's conversion of a Number to a string, in radix 10.
  An integer of magnitude up to \<open>2^53\<close> is printed with all its decimal digits. A larger
  Number is printed with the fewest significant digits that still read back as the same
  Number (the one nearest to the number written, ties to the even one): followed by zeros
  below \<open>10^21\<close>, and in exponent form (\<^verbatim>\<open>1e+21\<close>, \<^verbatim>\<open>1.1805916207174113e+21\<close>) from
  \<open>10^21\<close> on. An integer that is no Number stands for the Number nearest to it; integers
  beyond the largest Number are outside the model.
\<close>

text \<open>The decimal digit of a number below ten, and the decimal digits of a natural number.\<close>

definition digit :: "int \<Rightarrow> char" where
  "digit n = ''0123456789'' ! nat n"

function decimal :: "int \<Rightarrow> string" where
  "decimal n = (if n < 10 then [digit n] else decimal (n div 10) @ [digit (n mod 10)])"
  by pat_completeness auto
termination
  by (relation "measure nat") auto

declare decimal.simps [simp del]

text \<open>The Number (a double) nearest to a natural number: 53 significant bits, ties to even.\<close>

function bit_length :: "int \<Rightarrow> nat" where
  "bit_length n = (if n \<le> 0 then 0 else Suc (bit_length (n div 2)))"
  by pat_completeness auto
termination
  by (relation "measure nat") auto

declare bit_length.simps [simp del]

definition nearest_double :: "int \<Rightarrow> int" where
  "nearest_double c =
     (let b = bit_length c in
      if b \<le> 53 then c
      else
        let u = 2 ^ (b - 53); q = c div u; r = c mod u in
        if 2 * r < u then q * u
        else if u < 2 * r then (q + 1) * u
        else if even q then q * u else (q + 1) * u)"

text \<open>
  The number with the fewest significant digits that reads back as the Number \<open>x\<close>, which
  has \<open>e\<close> decimal digits: with \<open>k\<close> significant digits the candidates are the two
  multiples of \<open>10^(e - k)\<close> around \<open>x\<close>; of two that fit, the one closer to \<open>x\<close> is
  taken, and the even one in a tie.
\<close>

function shortest_from :: "int \<Rightarrow> nat \<Rightarrow> nat \<Rightarrow> int" where
  "shortest_from x e k =
     (if e \<le> k then x
      else
        let p = 10 ^ (e - k); a = (x div p) * p; b = a + p;
            fits_a = (nearest_double a = x); fits_b = (nearest_double b = x)
        in if fits_a \<and> fits_b then
             (if x - a < b - x then a
              else if b - x < x - a then b
              else if even (x div p) then a else b)
           else if fits_a then a
           else if fits_b then b
           else shortest_from x e (Suc k))"
  by pat_completeness auto
termination
  by (relation "measure (\<lambda>(x, e, k). e - k)") auto

declare shortest_from.simps [simp del]

definition shortest_decimal :: "int \<Rightarrow> int" where
  "shortest_decimal x = shortest_from x (length (decimal x)) 1"

text \<open>
  The digits of a number as the conversion prints them: all of them for a number of at most
  21 digits, and otherwise the significant ones, with a point after the first when there
  are several, and the exponent.
\<close>

definition significant :: "string \<Rightarrow> string" where
  "significant ds = rev (dropWhile (\<lambda>c. c = CHR ''0'') (rev ds))"

definition number_digits :: "int \<Rightarrow> string" where
  "number_digits c =
     (let ds = decimal c; n = length ds in
      if n \<le> 21 then ds
      else
        let s = significant ds in
        (if length s = 1 then s else hd s # CHR ''.'' # tl s) @ ''e+'' @ decimal (int n - 1))"

definition Number_toString :: "int \<Rightarrow> string" where
  "Number_toString x =
     (let m = \<bar>x\<bar>;
          ds = (if m \<le> 9007199254740992 then decimal m
                else number_digits (shortest_decimal (nearest_double m)))
      in if x < 0 then CHR ''-'' # ds else ds)"

subsection \<open>waitUntil\<close>

text \<open>
  \<^verbatim>\<open>waitUntil(condition, { interval, timeout })\<close>: the options object is destructured in
  the parameter list, so the model takes its two fields as arguments. The loop is
  \<^verbatim>\<open>while (true)\<close>: a run that never leaves it is \<open>None\<close>.
\<close>

definition timeout_message :: "int \<Rightarrow> string" where
  "timeout_message timeout = ''Condition not met within '' @ Number_toString timeout @ ''ms.''"

partial_function (option) waitUntil_loop ::
  "('e, 's, bool) async \<Rightarrow> int \<Rightarrow> int \<Rightarrow> int \<Rightarrow> ('e, 's) state \<Rightarrow> ('e, 's) run" where
  "waitUntil_loop condition interval timeout endTime st =
     (case await condition Condition st of (result, st1) \<Rightarrow>
        (case result of
           Inl e \<Rightarrow> Some (Rejected (Raised e), st1)
         | Inr b \<Rightarrow>
             if b then Some (Resolved, st1)
             else
               let currentTime = clock (fst st1) in
               if currentTime \<ge> endTime then
                 Some (Rejected (Error (timeout_message timeout)), st1)
               else
                 let remainingTime = endTime - currentTime;
                     waitTime = min interval remainingTime
                 in waitUntil_loop condition interval timeout endTime (suspend waitTime st1)))"

declare waitUntil_loop.simps [code]

definition waitUntil ::
  "('e, 's, bool) async \<Rightarrow> int \<Rightarrow> int \<Rightarrow> 's world \<Rightarrow> ('e, 's) run" where
  "waitUntil condition interval timeout w =
     (let startTime = clock w;
          endTime = startTime + timeout
      in waitUntil_loop condition interval timeout endTime (w, []))"

subsection \<open>waitForElementToBeEnabled\<close>

definition not_enabled_message :: string where
  "not_enabled_message = ''Element is not enabled''"

text \<open>The code after the loop: \<^verbatim>\<open>if (!isEnabled) throw new Error(...)\<close>.\<close>

definition waitForElementToBeEnabled_end :: "bool \<Rightarrow> ('e, 's) state \<Rightarrow> ('e, 's) run" where
  "waitForElementToBeEnabled_end isEnabled st =
     (if \<not> isEnabled then Some (Rejected (Error not_enabled_message), st)
      else Some (Resolved, st))"

partial_function (option) waitForElementToBeEnabled_loop ::
  "'e + ('e, 's) element \<Rightarrow> int \<Rightarrow> int \<Rightarrow> int \<Rightarrow> bool \<Rightarrow> ('e, 's) state \<Rightarrow> ('e, 's) run" where
  "waitForElementToBeEnabled_loop element timeout interval startTime isEnabled st =
     (if clock (fst st) - startTime < timeout then
        (case element of
           Inl e \<Rightarrow> Some (Rejected (Raised e), st)
         | Inr el \<Rightarrow>
             (case await el Get_attributes st of (result, st1) \<Rightarrow>
                (case result of
                   Inl e \<Rightarrow> Some (Rejected (Raised e), st1)
                 | Inr attrs \<Rightarrow>
                     if enabled attrs then waitForElementToBeEnabled_end (enabled attrs) st1
                     else waitForElementToBeEnabled_loop element timeout interval startTime
                            (enabled attrs) (suspend interval st1))))
      else waitForElementToBeEnabled_end isEnabled st)"

declare waitForElementToBeEnabled_loop.simps [code]

definition waitForElementToBeEnabled ::
  "'e + ('e, 's) element \<Rightarrow> int \<Rightarrow> int \<Rightarrow> 's world \<Rightarrow> ('e, 's) run" where
  "waitForElementToBeEnabled element timeout interval w =
     (let startTime = clock w;
          isEnabled = False
      in waitForElementToBeEnabled_loop element timeout interval startTime isEnabled (w, []))"

text \<open>The defaults of the parameter list: \<^verbatim>\<open>timeout = 3500\<close>, \<^verbatim>\<open>interval = 100\<close>.\<close>

definition waitForElementToBeEnabled_default ::
  "'e + ('e, 's) element \<Rightarrow> 's world \<Rightarrow> ('e, 's) run" where
  "waitForElementToBeEnabled_default element w = waitForElementToBeEnabled element 3500 100 w"

subsection \<open>waitForElementToStopMoving\<close>

text \<open>
  The options object: every field may be left out. The fields carry the prefix \<open>opt_\<close>,
  since \<open>timeout\<close> and \<open>interval\<close> name the local variables of the pollers.
\<close>

record WaitForStabilityOptions =
  opt_timeout :: "int option"
  opt_interval :: "int option"
  opt_stableCount :: "int option"

definition fallBackTimeout :: int where
  "fallBackTimeout = 2000"

definition not_stable_message :: string where
  "not_stable_message = ''Element did not become stable in time''"

text \<open>
  The closure \<^verbatim>\<open>getPosition\<close>: a fetch that throws, a missing frame and a coordinate
  that is not a number all give \<^verbatim>\<open>null\<close>.
\<close>

definition getPosition ::
  "('e, 's) element \<Rightarrow> ('e, 's) state \<Rightarrow> position option \<times> ('e, 's) state" where
  "getPosition el st =
     (case await el Get_attributes st of (result, st1) \<Rightarrow>
        (case result of
           Inl e \<Rightarrow> (None, st1)
         | Inr attrs \<Rightarrow>
             (case frame attrs of
                None \<Rightarrow> (None, st1)
              | Some f \<Rightarrow>
                  (case frame_x f of
                     None \<Rightarrow> (None, st1)
                   | Some a \<Rightarrow>
                       (case frame_y f of
                          None \<Rightarrow> (None, st1)
                        | Some b \<Rightarrow> (Some \<lparr>pos_x = a, pos_y = b\<rparr>, st1))))))"

text \<open>
  \<^verbatim>\<open>lastPosition && position.x === lastPosition.x && position.y === lastPosition.y\<close>
\<close>

definition same_position :: "position option \<Rightarrow> position \<Rightarrow> bool" where
  "same_position lastPosition p =
     (case lastPosition of
        None \<Rightarrow> False
      | Some l \<Rightarrow> pos_x p = pos_x l \<and> pos_y p = pos_y l)"

partial_function (option) waitForElementToStopMoving_loop ::
  "'e + ('e, 's) element \<Rightarrow> int \<Rightarrow> int \<Rightarrow> int \<Rightarrow> int \<Rightarrow> position option \<Rightarrow> int
    \<Rightarrow> ('e, 's) state \<Rightarrow> ('e, 's) run" where
  "waitForElementToStopMoving_loop element timeout interval stableCount start
       lastPosition stableChecks st =
     (if clock (fst st) - start < timeout then
        (case element of
           Inl e \<Rightarrow> Some (Rejected (Raised e), st)
         | Inr el \<Rightarrow>
             (case getPosition el st of (position, st1) \<Rightarrow>
                (case position of
                   None \<Rightarrow> Some (Resolved, suspend fallBackTimeout st1)
                 | Some p \<Rightarrow>
                     if same_position lastPosition p then
                       (if stableChecks + 1 \<ge> stableCount then Some (Resolved, st1)
                        else waitForElementToStopMoving_loop element timeout interval
                               stableCount start lastPosition (stableChecks + 1)
                               (suspend interval st1))
                     else waitForElementToStopMoving_loop element timeout interval
                            stableCount start (Some p) 1 (suspend interval st1))))
      else Some (Rejected (Error not_stable_message), st))"

declare waitForElementToStopMoving_loop.simps [code]

text \<open>
  \<^verbatim>\<open>const { timeout = 5000, interval = 200, stableCount = 3 } = options\<close>
\<close>

definition timeout_of :: "WaitForStabilityOptions \<Rightarrow> int" where
  "timeout_of options = (case opt_timeout options of None \<Rightarrow> 5000 | Some t \<Rightarrow> t)"

definition interval_of :: "WaitForStabilityOptions \<Rightarrow> int" where
  "interval_of options = (case opt_interval options of None \<Rightarrow> 200 | Some i \<Rightarrow> i)"

definition stableCount_of :: "WaitForStabilityOptions \<Rightarrow> int" where
  "stableCount_of options = (case opt_stableCount options of None \<Rightarrow> 3 | Some n \<Rightarrow> n)"

definition waitForElementToStopMoving ::
  "'e + ('e, 's) element \<Rightarrow> WaitForStabilityOptions \<Rightarrow> 's world \<Rightarrow> ('e, 's) run" where
  "waitForElementToStopMoving element options w =
     (let timeout = timeout_of options;
          interval = interval_of options;
          stableCount = stableCount_of options;
          lastPosition = None;
          stableChecks = 0;
          start = clock w
      in waitForElementToStopMoving_loop element timeout interval stableCount start
           lastPosition stableChecks (w, []))"

subsection \<open>Reading a trace\<close>

text \<open>The durations of the timer waits of a trace, in order.\<close>

fun suspensions :: "'e event list \<Rightarrow> int list" where
  "suspensions [] = []"
| "suspensions (Timer d # tr) = d # suspensions tr"
| "suspensions (ev # tr) = suspensions tr"

text \<open>The number of invocations of the condition in a trace.\<close>

fun invocations :: "'e event list \<Rightarrow> nat" where
  "invocations [] = 0"
| "invocations (Condition r # tr) = Suc (invocations tr)"
| "invocations (ev # tr) = invocations tr"

text \<open>
  A trace in which a timer wait stands between any two invocations of the condition:
  invocation, wait, invocation, ..., wait, invocation.
\<close>

fun yields_between :: "'e event list \<Rightarrow> bool" where
  "yields_between [Condition r] = True"
| "yields_between (Condition r # Timer d # tr) = yields_between tr"
| "yields_between tr = False"

text \<open>
  Reading a string of decimal digits as a number: the value of the digits, most significant
  first, and nothing for a string with any other character or with none.
\<close>

definition digit_value :: "char \<Rightarrow> int option" where
  "digit_value c = map_of (zip ''0123456789'' [0, 1, 2, 3, 4, 5, 6, 7, 8, 9]) c"

fun decimal_value_from :: "int \<Rightarrow> string \<Rightarrow> int option" where
  "decimal_value_from acc [] = Some acc"
| "decimal_value_from acc (c # cs) =
     (case digit_value c of
        None \<Rightarrow> None
      | Some d \<Rightarrow> decimal_value_from (10 * acc + d) cs)"

definition decimal_value :: "string \<Rightarrow> int option" where
  "decimal_value ds = (if ds = [] then None else decimal_value_from 0 ds)"

text \<open>
  The outcome of a condition poll whose last evaluation of the condition gave \<open>res\<close>,
  and the trace of the rounds before it: an evaluation that gave false, then a timer wait.
\<close>

definition verdict :: "int \<Rightarrow> 'e + bool \<Rightarrow> 'e outcome" where
  "verdict timeout res =
     (case res of
        Inl e \<Rightarrow> Rejected (Raised e)
      | Inr b \<Rightarrow> if b then Resolved else Rejected (Error (timeout_message timeout)))"

definition rounds :: "int list \<Rightarrow> 'e event list" where
  "rounds ds = concat (map (\<lambda>d. [Condition (Inr False), Timer d]) ds)"

text \<open>
  The position a fetch gives, as \<^verbatim>\<open>getPosition\<close> decodes it, and the positions of the
  available samples of a trace, in order.
\<close>

definition position_of :: "'e + attributes \<Rightarrow> position option" where
  "position_of result =
     (case result of
        Inl e \<Rightarrow> None
      | Inr attrs \<Rightarrow>
          (case frame attrs of
             None \<Rightarrow> None
           | Some f \<Rightarrow>
               (case (frame_x f, frame_y f) of
                  (Some a, Some b) \<Rightarrow> Some \<lparr>pos_x = a, pos_y = b\<rparr>
                | _ \<Rightarrow> None)))"




text \<open>
  \<open>n\<close> samples in a row, from the world \<open>w\<close> on, each taken before the deadline
  and each giving the position \<open>p\<close>, with the wait of \<open>interval\<close> between them.
\<close>

fun stable_run ::
  "('e, 's) element \<Rightarrow> int \<Rightarrow> int \<Rightarrow> int \<Rightarrow> position \<Rightarrow> nat \<Rightarrow> 's world \<Rightarrow> bool" where
  "stable_run el timeout interval start p 0 w = True"
| "stable_run el timeout interval start p (Suc n) w =
     (clock w - start < timeout \<and> position_of (fst (el w)) = Some p \<and>
      stable_run el timeout interval start p n
        ((snd (el w))\<lparr>clock := clock (snd (el w)) + max 0 interval\<rparr>))"




subsection \<open>The condition poller as the specification words it\<close>

text \<open>
  The runs of the specification's ConditionPoller from one evaluation of the condition on,
  for a deadline \<open>endTime\<close> that is a parameter of the whole run: the condition
  resolves true and the poll succeeds at once; it resolves false at or past the deadline
  and the poll fails with the error naming the timeout; it resolves false before the
  deadline and the poll suspends for \<open>min interval (endTime - now)\<close> and retries; it
  throws and the poll fails with what it threw.
\<close>

inductive condition_poller ::
  "('e, 's, bool) async \<Rightarrow> int \<Rightarrow> int \<Rightarrow> int \<Rightarrow> ('e, 's) state
    \<Rightarrow> 'e outcome \<times> ('e, 's) state \<Rightarrow> bool"
  for condition :: "('e, 's, bool) async" and interval timeout endTime :: int where
  met:
    "condition w = (Inr True, w1) \<Longrightarrow>
     condition_poller condition interval timeout endTime (w, tr)
       (Resolved, w1, tr @ [Condition (Inr True)])"
| timed_out:
    "condition w = (Inr False, w1) \<Longrightarrow> endTime \<le> clock w1 \<Longrightarrow>
     condition_poller condition interval timeout endTime (w, tr)
       (Rejected (Error (''Condition not met within '' @ Number_toString timeout @ ''ms.'')),
        w1, tr @ [Condition (Inr False)])"
| retry:
    "condition w = (Inr False, w1) \<Longrightarrow> clock w1 < endTime \<Longrightarrow>
     waitTime = min interval (endTime - clock w1) \<Longrightarrow>
     condition_poller condition interval timeout endTime
       (w1\<lparr>clock := clock w1 + waitTime\<rparr>, tr @ [Condition (Inr False), Timer waitTime]) res \<Longrightarrow>
     condition_poller condition interval timeout endTime (w, tr) res"
| thrown:
    "condition w = (Inl e, w1) \<Longrightarrow>
     condition_poller condition interval timeout endTime (w, tr)
       (Rejected (Raised e), w1, tr @ [Condition (Inl e)])"

subsection \<open>Stand-ins for the caller's callbacks\<close>

text \<open>
  Concrete callbacks for concrete runs. Their state is the number of calls made so far;
  none of them takes time.
\<close>

definition w0 :: "nat world" where
  "w0 = \<lparr>clock = 0, env = 0\<rparr>"

text \<open>A condition that is false on its first \<open>n\<close> calls and true from then on.\<close>

definition true_after :: "nat \<Rightarrow> (string, nat, bool) async" where
  "true_after n w = (Inr (n \<le> env w), w\<lparr>env := Suc (env w)\<rparr>)"

text \<open>A condition that is never true.\<close>

definition never_true :: "(string, nat, bool) async" where
  "never_true w = (Inr False, w\<lparr>env := Suc (env w)\<rparr>)"

text \<open>A call that is false on its first \<open>n\<close> calls and throws \<open>e\<close> on the next.\<close>

definition throws_after :: "nat \<Rightarrow> string \<Rightarrow> (string, nat, bool) async" where
  "throws_after n e w =
     (if n \<le> env w then Inl e else Inr False, w\<lparr>env := Suc (env w)\<rparr>)"

text \<open>An element whose \<open>k\<close>-th fetch gives \<open>script k\<close>.\<close>

definition scripted :: "(nat \<Rightarrow> string + attributes) \<Rightarrow> (string, nat) element" where
  "scripted script w = (script (env w), w\<lparr>env := Suc (env w)\<rparr>)"

definition at_position :: "int \<Rightarrow> int \<Rightarrow> string + attributes" where
  "at_position a b =
     Inr \<lparr>enabled = False, frame = Some \<lparr>frame_x = Some a, frame_y = Some b\<rparr>\<rparr>"

definition enabled_is :: "bool \<Rightarrow> string + attributes" where
  "enabled_is b = Inr \<lparr>enabled = b, frame = None\<rparr>"

text \<open>The script that goes through a list and then repeats a last value.\<close>

definition script_of :: "'a list \<Rightarrow> 'a \<Rightarrow> nat \<Rightarrow> 'a" where
  "script_of xs d k = (if k < length xs then xs ! k else d)"

text \<open>An element whose first fetch reports \<^verbatim>\<open>enabled: false\<close> and whose second throws.\<close>

definition fails_second :: "(string, nat) element" where
  "fails_second = scripted (script_of [enabled_is False] (Inl ''gone''))"

text \<open>An element that every fetch reports enabled.\<close>

definition always_enabled :: "(string, nat) element" where
  "always_enabled = scripted (\<lambda>k. enabled_is True)"

text \<open>An element that every fetch reports not enabled.\<close>

definition never_enabled :: "(string, nat) element" where
  "never_enabled = scripted (\<lambda>k. enabled_is False)"

text \<open>An element whose every fetch throws.\<close>

definition unavailable :: "(string, nat) element" where
  "unavailable = scripted (\<lambda>k. Inl ''no attributes'')"

text \<open>An element that is at \<open>(k, k)\<close> at its \<open>k\<close>-th fetch, and one that rests at \<open>(1, 1)\<close>.\<close>

definition moving :: "(string, nat) element" where
  "moving = scripted (\<lambda>k. at_position (int k) (int k))"

definition resting :: "(string, nat) element" where
  "resting = scripted (\<lambda>k. at_position 1 1)"



text \<open>The options a caller leaves out: \<^verbatim>\<open>options = {}\<close>.\<close>

definition default_options :: WaitForStabilityOptions where
  "default_options = \<lparr>opt_timeout = None, opt_interval = None, opt_stableCount = None\<rparr>"

section \<open>Unfolding the loops\<close>

lemma suspend_simp: "suspend d (w, tr) = (w\<lparr>clock := clock w + max 0 d\<rparr>, tr @ [Timer d])"
  by (simp add: suspend_def)

lemma await_simp: "call w = (r, w1) \<Longrightarrow> await call ev (w, tr) = (r, (w1, tr @ [ev r]))"
  by (simp add: await_def)

subsection \<open>Numbers in messages\<close>

lemma digit_value_digit:
  assumes "0 \<le> d" and "d < 10"
  shows "digit_value (digit d) = Some d"
proof -
  from assms have "d = 0 \<or> d = 1 \<or> d = 2 \<or> d = 3 \<or> d = 4 \<or> d = 5 \<or> d = 6 \<or> d = 7 \<or> d = 8 \<or> d = 9"
    by arith
  then show ?thesis
    by (elim disjE) (simp_all add: digit_def digit_value_def)
qed

lemma decimal_value_from_append:
  "decimal_value_from acc (xs @ ys) =
     (case decimal_value_from acc xs of None \<Rightarrow> None | Some a \<Rightarrow> decimal_value_from a ys)"
  by (induction xs arbitrary: acc) (auto split: option.splits)

lemma decimal_value_from_decimal:
  "0 \<le> n \<Longrightarrow> decimal_value_from 0 (decimal n) = Some n"
proof (induction n rule: decimal.induct)
  case (1 n)
  show ?case
  proof (cases "n < 10")
    case True
    with 1(2) show ?thesis
      by (subst decimal.simps) (simp add: digit_value_digit)
  next
    case False
    with 1 have "decimal_value_from 0 (decimal (n div 10)) = Some (n div 10)" by simp
    moreover have "0 \<le> n mod 10" "n mod 10 < 10" by simp_all
    ultimately show ?thesis using False
      by (subst decimal.simps) (simp add: decimal_value_from_append digit_value_digit)
  qed
qed

lemma decimal_nonempty: "decimal n \<noteq> []"
  by (subst decimal.simps) simp

lemma decimal_value_decimal: "0 \<le> n \<Longrightarrow> decimal_value (decimal n) = Some n"
  by (simp add: decimal_value_def decimal_nonempty decimal_value_from_decimal)

lemma choice_cases:
  assumes "A \<Longrightarrow> P a" and "B \<Longrightarrow> P b" and "\<not> A \<Longrightarrow> \<not> B \<Longrightarrow> P r"
  shows "P (if A \<and> B then (if C then a else if D then b else if E then a else b)
            else if A then a else if B then b else r)"
  using assms by (cases A; cases B; cases C; cases D; cases E) simp_all

lemma shortest_from_reads_back:
  "nearest_double x = x \<Longrightarrow> nearest_double (shortest_from x e k) = x"
proof (induction x e k rule: shortest_from.induct)
  case (1 x e k)
  show ?case
  proof (cases "e \<le> k")
    case True
    have "shortest_from x e k = x"
      by (subst shortest_from.simps) (simp only: True if_True)
    with 1(2) show ?thesis by (simp only:)
  next
    case False
    define p :: int where "p = 10 ^ (e - k)"
    define a where "a = (x div p) * p"
    define b where "b = a + p"
    have unfold: "shortest_from x e k =
        (if nearest_double a = x \<and> nearest_double b = x then
           (if x - a < b - x then a
            else if b - x < x - a then b
            else if even (x div p) then a else b)
         else if nearest_double a = x then a
         else if nearest_double b = x then b
         else shortest_from x e (Suc k))"
      by (subst shortest_from.simps) (simp only: False if_False Let_def p_def a_def b_def)
    have rec: "nearest_double (shortest_from x e (Suc k)) = x"
      if na: "nearest_double a \<noteq> x" and nb: "nearest_double b \<noteq> x"
    proof (rule 1(1)[OF False refl refl refl refl refl _ _ _ 1(2)])
      show "\<not> (nearest_double (x div 10 ^ (e - k) * 10 ^ (e - k)) = x \<and>
          nearest_double (x div 10 ^ (e - k) * 10 ^ (e - k) + 10 ^ (e - k)) = x)"
        using na unfolding p_def a_def b_def by blast
      show "nearest_double (x div 10 ^ (e - k) * 10 ^ (e - k)) \<noteq> x"
        using na unfolding p_def a_def .
      show "nearest_double (x div 10 ^ (e - k) * 10 ^ (e - k) + 10 ^ (e - k)) \<noteq> x"
        using nb unfolding p_def a_def b_def .
    qed
    show ?thesis
      unfolding unfold
      by (rule choice_cases) (assumption, assumption, rule rec)
  qed
qed

lemma Number_toString_safe:
  "0 \<le> x \<Longrightarrow> x \<le> 9007199254740992 \<Longrightarrow> Number_toString x = decimal x"
  by (simp add: Number_toString_def)

lemma Number_toString_large:
  "9007199254740992 < x \<Longrightarrow> nearest_double x = x \<Longrightarrow>
   Number_toString x = number_digits (shortest_decimal x) \<and>
   nearest_double (shortest_decimal x) = x"
  by (simp add: Number_toString_def shortest_decimal_def shortest_from_reads_back)

subsection \<open>waitUntil\<close>

lemma waitUntil_loop_raise:
  "condition w = (Inl e, w1) \<Longrightarrow>
   waitUntil_loop condition interval timeout endTime (w, tr) =
     Some (Rejected (Raised e), w1, tr @ [Condition (Inl e)])"
  by (subst waitUntil_loop.simps) (simp add: await_simp)

lemma waitUntil_loop_true:
  "condition w = (Inr True, w1) \<Longrightarrow>
   waitUntil_loop condition interval timeout endTime (w, tr) =
     Some (Resolved, w1, tr @ [Condition (Inr True)])"
  by (subst waitUntil_loop.simps) (simp add: await_simp)

lemma waitUntil_loop_deadline:
  "condition w = (Inr False, w1) \<Longrightarrow> endTime \<le> clock w1 \<Longrightarrow>
   waitUntil_loop condition interval timeout endTime (w, tr) =
     Some (Rejected (Error (timeout_message timeout)), w1, tr @ [Condition (Inr False)])"
  by (subst waitUntil_loop.simps) (simp add: await_simp)

lemma waitUntil_loop_retry:
  "condition w = (Inr False, w1) \<Longrightarrow> clock w1 < endTime \<Longrightarrow>
   waitUntil_loop condition interval timeout endTime (w, tr) =
     waitUntil_loop condition interval timeout endTime
       (w1\<lparr>clock := clock w1 + max 0 (min interval (endTime - clock w1))\<rparr>,
        tr @ [Condition (Inr False), Timer (min interval (endTime - clock w1))])"
  by (subst waitUntil_loop.simps) (simp add: await_simp Let_def suspend_simp)

lemma condition_poller_timed_out:
  "condition w = (Inr False, w1) \<Longrightarrow> endTime \<le> clock w1 \<Longrightarrow>
   condition_poller condition interval timeout endTime (w, tr)
     (Rejected (Error (timeout_message timeout)), w1, tr @ [Condition (Inr False)])"
  unfolding timeout_message_def by (rule condition_poller.timed_out)

lemma waitUntil_loop_sound:
  assumes "waitUntil_loop condition interval timeout endTime st = Some res" and "0 \<le> interval"
  shows "condition_poller condition interval timeout endTime st res"
  using assms
proof (induction condition interval timeout endTime st res rule: waitUntil_loop.raw_induct[rotated 1, consumes 1])
  case (1 loop condition interval timeout endTime st res)
  obtain w tr where st: "st = (w, tr)" by (cases st)
  obtain r w1 where c: "condition w = (r, w1)" by (cases "condition w")
  show ?case
  proof (cases r)
    case (Inl e)
    with 1(2) st c show ?thesis
      by (auto simp: await_simp intro: condition_poller.thrown)
  next
    case (Inr b)
    show ?thesis
    proof (cases b)
      case True
      with 1(2) st c Inr show ?thesis
        by (auto simp: await_simp intro: condition_poller.met)
    next
      case False
      show ?thesis
      proof (cases "endTime \<le> clock w1")
        case True
        with 1(2) st c Inr False show ?thesis
          by (auto simp: await_simp intro: condition_poller_timed_out)
      next
        case late: False
        let ?d = "min interval (endTime - clock w1)"
        from late 1(3) have d: "max 0 ?d = ?d" by simp
        from 1(2) st c Inr False late
        have "loop condition interval timeout endTime
                (w1\<lparr>clock := clock w1 + ?d\<rparr>, tr @ [Condition (Inr False), Timer ?d]) = Some res"
          by (simp add: await_simp Let_def suspend_simp d)
        from 1(1)[OF this 1(3)] c Inr False late st show ?thesis
          by (auto intro: condition_poller.retry)
      qed
    qed
  qed
qed

lemma waitUntil_loop_complete:
  assumes "condition_poller condition interval timeout endTime st res" and "0 \<le> interval"
  shows "waitUntil_loop condition interval timeout endTime st = Some res"
  using assms
proof (induction rule: condition_poller.induct)
  case (retry w w1 waitTime tr res)
  then have "max 0 (min interval (endTime - clock w1)) = min interval (endTime - clock w1)"
    by simp
  with retry show ?case
    by (simp add: waitUntil_loop_retry)
qed (simp_all add: waitUntil_loop_true waitUntil_loop_deadline[unfolded timeout_message_def]
    waitUntil_loop_raise)

lemma rounds_simps: "rounds [] = []" "rounds (d # ds) = Condition (Inr False) # Timer d # rounds ds"
  by (simp_all add: rounds_def)

lemma waitUntil_loop_shape:
  assumes "waitUntil_loop condition interval timeout endTime st = Some res"
  shows "\<exists>ds r. snd (snd res) = snd st @ rounds ds @ [Condition r] \<and> fst res = verdict timeout r"
  using assms
proof (induction condition interval timeout endTime st res rule: waitUntil_loop.raw_induct[rotated 1, consumes 1])
  case (1 loop condition interval timeout endTime st res)
  obtain w tr where st: "st = (w, tr)" by (cases st)
  obtain r w1 where c: "condition w = (r, w1)" by (cases "condition w")
  show ?case
  proof (cases "r = Inr False \<and> clock w1 < endTime")
    case True
    let ?d = "min interval (endTime - clock w1)"
    from 1(2) st c True
    have "loop condition interval timeout endTime
            (suspend ?d (w1, tr @ [Condition (Inr False)])) = Some res"
      by (simp add: await_simp Let_def)
    from 1(1)[OF this] obtain ds r' where
      "snd (snd res) = (tr @ [Condition (Inr False), Timer ?d]) @ rounds ds @ [Condition r']"
      "fst res = verdict timeout r'"
      by (auto simp: suspend_simp)
    then have "snd (snd res) = snd st @ rounds (?d # ds) @ [Condition r'] \<and> fst res = verdict timeout r'"
      by (simp add: st rounds_simps)
    then show ?thesis by blast
  next
    case False
    with 1(2) st c have "snd (snd res) = snd st @ rounds [] @ [Condition r] \<and> fst res = verdict timeout r"
      by (cases r) (auto simp: await_simp Let_def verdict_def rounds_simps split: if_splits)
    then show ?thesis by blast
  qed
qed

lemma yields_between_rounds: "yields_between (rounds ds @ [Condition r])"
  by (induction ds) (simp_all add: rounds_simps)

lemma suspensions_rounds: "suspensions (rounds ds @ [Condition r]) = ds"
  by (induction ds) (simp_all add: rounds_simps)

lemma invocations_rounds: "invocations (rounds ds @ [Condition r]) = Suc (length ds)"
  by (induction ds) (simp_all add: rounds_simps)

lemma raise_in_rounds:
  "Condition (Inl e) \<in> set (rounds ds @ [Condition r]) \<Longrightarrow> r = Inl e"
  by (induction ds) (auto simp: rounds_simps)

lemma never_true_spins:
  assumes "waitUntil_loop condition interval timeout endTime st = Some res"
    and "\<forall>w. fst (condition w) = Inr False \<and> clock (snd (condition w)) = clock w"
    and "interval = 0" and "clock (fst st) < endTime"
  shows False
  using assms
proof (induction condition interval timeout endTime st res rule: waitUntil_loop.raw_induct[rotated 1, consumes 1])
  case (1 loop condition interval timeout endTime st res)
  obtain w tr where st: "st = (w, tr)" by (cases st)
  obtain r w1 where c: "condition w = (r, w1)" by (cases "condition w")
  from 1(3) c have r: "r = Inr False" and w1: "clock w1 = clock w"
    by (metis fst_conv, metis snd_conv)
  from 1(2) 1(4) 1(5) st c r w1
  have "loop condition interval timeout endTime
          (suspend 0 (w1, tr @ [Condition (Inr False)])) = Some res"
    by (simp add: await_simp Let_def)
  from 1(1)[OF this 1(3) 1(4)] 1(5) st w1 show False
    by (simp add: suspend_simp)
qed

lemma waitUntil_loop_times_out:
  assumes idle: "\<forall>w. fst (condition w) = Inr False \<and> clock (snd (condition w)) = clock w"
    and "clock w \<le> endTime" and "0 < interval \<or> clock w = endTime"
  shows "\<exists>w' tr'. waitUntil_loop condition interval timeout endTime (w, tr) =
            Some (Rejected (Error (timeout_message timeout)), w', tr') \<and> clock w' = endTime"
  using assms(2,3)
proof (induction "nat (endTime - clock w)" arbitrary: w tr rule: less_induct)
  case less
  obtain r w1 where c: "condition w = (r, w1)" by (cases "condition w")
  from idle c have r: "r = Inr False" and w1: "clock w1 = clock w"
    by (metis fst_conv, metis snd_conv)
  show ?case
  proof (cases "clock w = endTime")
    case True
    with c r w1 show ?thesis
      by (simp add: waitUntil_loop_deadline)
  next
    case False
    with less.prems have lt: "clock w1 < endTime" and pos: "0 < interval"
      using w1 by auto
    let ?d = "min interval (endTime - clock w1)"
    let ?w2 = "w1\<lparr>clock := clock w1 + max 0 ?d\<rparr>"
    from lt pos have d: "0 < ?d" "?d \<le> endTime - clock w1" by auto
    have step: "waitUntil_loop condition interval timeout endTime (w, tr) =
        waitUntil_loop condition interval timeout endTime
          (?w2, tr @ [Condition (Inr False), Timer ?d])"
      using c r lt by (simp add: waitUntil_loop_retry)
    have "nat (endTime - clock ?w2) < nat (endTime - clock w)"
      using d w1 by simp
    moreover have "clock ?w2 \<le> endTime" using d by simp
    ultimately show ?thesis
      using less.hyps[of ?w2] pos step by simp
  qed
qed

lemma suspensions_append: "suspensions (xs @ ys) = suspensions xs @ suspensions ys"
  by (induction xs rule: suspensions.induct) simp_all

lemma waitUntil_loop_durations:
  assumes "waitUntil_loop condition interval timeout endTime st = Some res"
  shows "\<exists>ds. suspensions (snd (snd res)) = suspensions (snd st) @ ds \<and>
           (\<forall>d\<in>set ds. d = interval \<or> (0 < d \<and> d < interval))"
  using assms
proof (induction condition interval timeout endTime st res rule: waitUntil_loop.raw_induct[rotated 1, consumes 1])
  case (1 loop condition interval timeout endTime st res)
  obtain w tr where st: "st = (w, tr)" by (cases st)
  obtain r w1 where c: "condition w = (r, w1)" by (cases "condition w")
  show ?case
  proof (cases "r = Inr False \<and> clock w1 < endTime")
    case True
    let ?d = "min interval (endTime - clock w1)"
    from 1(2) st c True
    have "loop condition interval timeout endTime
            (suspend ?d (w1, tr @ [Condition (Inr False)])) = Some res"
      by (simp add: await_simp Let_def)
    from 1(1)[OF this] obtain ds where
      ds: "suspensions (snd (snd res)) = suspensions (tr @ [Condition (Inr False), Timer ?d]) @ ds"
      "\<forall>d\<in>set ds. d = interval \<or> (0 < d \<and> d < interval)"
      by (auto simp: suspend_simp)
    have "?d = interval \<or> (0 < ?d \<and> ?d < interval)" using True by auto
    with ds have "suspensions (snd (snd res)) = suspensions (snd st) @ (?d # ds) \<and>
           (\<forall>d\<in>set (?d # ds). d = interval \<or> (0 < d \<and> d < interval))"
      by (simp add: st suspensions_append)
    then show ?thesis by blast
  next
    case False
    with 1(2) st c have "suspensions (snd (snd res)) = suspensions (snd st) @ []"
      by (cases r) (auto simp: await_simp Let_def suspensions_append split: if_splits)
    then show ?thesis by simp
  qed
qed


subsection \<open>waitForElementToBeEnabled\<close>

lemma waitForElementToBeEnabled_loop_late:
  "\<not> clock w - startTime < timeout \<Longrightarrow>
   waitForElementToBeEnabled_loop element timeout interval startTime isEnabled (w, tr) =
     (if isEnabled then Some (Resolved, w, tr)
      else Some (Rejected (Error not_enabled_message), w, tr))"
  by (subst waitForElementToBeEnabled_loop.simps) (simp add: waitForElementToBeEnabled_end_def)

lemma waitForElementToBeEnabled_loop_rejected:
  "clock w - startTime < timeout \<Longrightarrow>
   waitForElementToBeEnabled_loop (Inl e) timeout interval startTime isEnabled (w, tr) =
     Some (Rejected (Raised e), w, tr)"
  by (subst waitForElementToBeEnabled_loop.simps) simp

lemma waitForElementToBeEnabled_loop_raise:
  "clock w - startTime < timeout \<Longrightarrow> el w = (Inl e, w1) \<Longrightarrow>
   waitForElementToBeEnabled_loop (Inr el) timeout interval startTime isEnabled (w, tr) =
     Some (Rejected (Raised e), w1, tr @ [Get_attributes (Inl e)])"
  by (subst waitForElementToBeEnabled_loop.simps) (simp add: await_simp)

lemma waitForElementToBeEnabled_loop_enabled:
  "clock w - startTime < timeout \<Longrightarrow> el w = (Inr attrs, w1) \<Longrightarrow> enabled attrs \<Longrightarrow>
   waitForElementToBeEnabled_loop (Inr el) timeout interval startTime isEnabled (w, tr) =
     Some (Resolved, w1, tr @ [Get_attributes (Inr attrs)])"
  by (subst waitForElementToBeEnabled_loop.simps)
     (simp add: await_simp waitForElementToBeEnabled_end_def)

lemma waitForElementToBeEnabled_loop_retry:
  "clock w - startTime < timeout \<Longrightarrow> el w = (Inr attrs, w1) \<Longrightarrow> \<not> enabled attrs \<Longrightarrow>
   waitForElementToBeEnabled_loop (Inr el) timeout interval startTime isEnabled (w, tr) =
     waitForElementToBeEnabled_loop (Inr el) timeout interval startTime False
       (w1\<lparr>clock := clock w1 + max 0 interval\<rparr>,
        tr @ [Get_attributes (Inr attrs), Timer interval])"
  by (subst waitForElementToBeEnabled_loop.simps) (simp add: await_simp suspend_simp)

text \<open>
  Every read gives false and takes no time, and the interval is positive: the loop ends
  at the first multiple of the interval that reaches the timeout.
\<close>

lemma waitForElementToBeEnabled_loop_never:
  assumes idle: "\<forall>w. (\<exists>attrs. fst (el w) = Inr attrs \<and> \<not> enabled attrs) \<and> clock (snd (el w)) = clock w"
    and "0 < interval" and "startTime \<le> clock w" "(clock w - startTime) mod interval = 0"
  shows "\<exists>w' tr'. waitForElementToBeEnabled_loop (Inr el) timeout interval startTime False (w, tr) =
            Some (Rejected (Error not_enabled_message), w', tr') \<and>
            clock w' = (if clock w - startTime < timeout
                        then startTime + interval * ((timeout + interval - 1) div interval)
                        else clock w)"
  using assms(3,4)
proof (induction "nat (timeout - (clock w - startTime))" arbitrary: w tr rule: less_induct)
  case less
  show ?case
  proof (cases "clock w - startTime < timeout")
    case False
    then show ?thesis by (simp add: waitForElementToBeEnabled_loop_late)
  next
    case True
    obtain r w1 where c: "el w = (r, w1)" by (cases "el w")
    from idle c obtain attrs where r: "r = Inr attrs" "\<not> enabled attrs" and w1: "clock w1 = clock w"
      by (metis fst_conv snd_conv)
    let ?w2 = "w1\<lparr>clock := clock w1 + max 0 interval\<rparr>"
    have w2: "clock ?w2 = clock w + interval" using w1 assms(2) by simp
    have step: "waitForElementToBeEnabled_loop (Inr el) timeout interval startTime False (w, tr) =
       waitForElementToBeEnabled_loop (Inr el) timeout interval startTime False
         (?w2, tr @ [Get_attributes (Inr attrs), Timer interval])"
      using True c r by (simp add: waitForElementToBeEnabled_loop_retry)
    have m: "nat (timeout - (clock ?w2 - startTime)) < nat (timeout - (clock w - startTime))"
      using True w2 assms(2) by simp
    have s: "startTime \<le> clock ?w2" using w2 less.prems assms(2) by simp
    have md: "(clock ?w2 - startTime) mod interval = 0"
      using w2 less.prems(2) by (simp add: algebra_simps) (metis add.commute mod_add_self1 add_diff_eq)
    from less.hyps[OF m s md] obtain w' tr' where
      run: "waitForElementToBeEnabled_loop (Inr el) timeout interval startTime False
         (?w2, tr @ [Get_attributes (Inr attrs), Timer interval]) =
            Some (Rejected (Error not_enabled_message), w', tr')"
      and cl: "clock w' = (if clock ?w2 - startTime < timeout
                        then startTime + interval * ((timeout + interval - 1) div interval)
                        else clock ?w2)"
      by blast
    have "clock w' = startTime + interval * ((timeout + interval - 1) div interval)"
    proof (cases "clock ?w2 - startTime < timeout")
      case True
      with cl show ?thesis by simp
    next
      case False
      obtain k where k: "clock w - startTime = interval * k"
        using less.prems(2) by (metis mod_eq_0_iff_dvd dvdE)
      from False w2 k have up: "timeout \<le> interval * (k + 1)" by (simp add: algebra_simps)
      from True k have lo: "interval * k < timeout" by simp
      have "(timeout + interval - 1) div interval = k + 1"
      proof -
        have "interval * (k + 1) \<le> timeout + interval - 1" using lo by (simp add: algebra_simps)
        moreover have "timeout + interval - 1 < interval * (k + 1) + interval" using up assms(2) by simp
        ultimately show ?thesis using assms(2)
          by (intro int_div_pos_eq[where r = "timeout + interval - 1 - interval * (k + 1)"]) simp_all
      qed
      with False cl w2 k show ?thesis by (simp add: algebra_simps)
    qed
    with step run True show ?thesis by simp
  qed
qed


subsection \<open>waitForElementToStopMoving\<close>

lemma getPosition_eq:
  "el w = (r, w1) \<Longrightarrow> getPosition el (w, tr) = (position_of r, (w1, tr @ [Get_attributes r]))"
  by (simp add: getPosition_def position_of_def await_simp split: sum.splits option.splits)

lemma same_position_iff: "same_position lastPosition p = (lastPosition = Some p)"
  by (cases lastPosition) (auto simp: same_position_def)


lemma waitForElementToStopMoving_loop_unavailable:
  "clock w - start < timeout \<Longrightarrow> el w = (r, w1) \<Longrightarrow> position_of r = None \<Longrightarrow>
   waitForElementToStopMoving_loop (Inr el) timeout interval stableCount start
       lastPosition stableChecks (w, tr) =
     Some (Resolved, w1\<lparr>clock := clock w1 + 2000\<rparr>, tr @ [Get_attributes r, Timer 2000])"
  by (subst waitForElementToStopMoving_loop.simps)
     (simp add: getPosition_eq suspend_simp fallBackTimeout_def)

lemma waitForElementToStopMoving_loop_stable:
  "clock w - start < timeout \<Longrightarrow> el w = (r, w1) \<Longrightarrow> position_of r = Some p \<Longrightarrow>
   lastPosition = Some p \<Longrightarrow> stableCount \<le> stableChecks + 1 \<Longrightarrow>
   waitForElementToStopMoving_loop (Inr el) timeout interval stableCount start
       lastPosition stableChecks (w, tr) =
     Some (Resolved, w1, tr @ [Get_attributes r])"
  by (subst waitForElementToStopMoving_loop.simps)
     (simp add: getPosition_eq same_position_iff)

lemma waitForElementToStopMoving_loop_same:
  "clock w - start < timeout \<Longrightarrow> el w = (r, w1) \<Longrightarrow> position_of r = Some p \<Longrightarrow>
   lastPosition = Some p \<Longrightarrow> stableChecks + 1 < stableCount \<Longrightarrow>
   waitForElementToStopMoving_loop (Inr el) timeout interval stableCount start
       lastPosition stableChecks (w, tr) =
     waitForElementToStopMoving_loop (Inr el) timeout interval stableCount start
       lastPosition (stableChecks + 1)
       (w1\<lparr>clock := clock w1 + max 0 interval\<rparr>, tr @ [Get_attributes r, Timer interval])"
  by (subst waitForElementToStopMoving_loop.simps)
     (simp add: getPosition_eq same_position_iff suspend_simp)

lemma waitForElementToStopMoving_loop_moved:
  "clock w - start < timeout \<Longrightarrow> el w = (r, w1) \<Longrightarrow> position_of r = Some p \<Longrightarrow>
   lastPosition \<noteq> Some p \<Longrightarrow>
   waitForElementToStopMoving_loop (Inr el) timeout interval stableCount start
       lastPosition stableChecks (w, tr) =
     waitForElementToStopMoving_loop (Inr el) timeout interval stableCount start
       (Some p) 1
       (w1\<lparr>clock := clock w1 + max 0 interval\<rparr>, tr @ [Get_attributes r, Timer interval])"
  by (subst waitForElementToStopMoving_loop.simps)
     (simp add: getPosition_eq same_position_iff suspend_simp)

lemma stable_run_resolves:
  assumes "stable_run el timeout interval start p n w"
    and "if lastPosition = Some p then 1 \<le> n \<and> stableCount \<le> stableChecks + int n
         else 2 \<le> n \<and> stableCount \<le> int n"
  shows "\<exists>w' tr'. waitForElementToStopMoving_loop (Inr el) timeout interval stableCount start
            lastPosition stableChecks (w, tr) = Some (Resolved, w', tr')"
  using assms
proof (induction n arbitrary: w tr lastPosition stableChecks)
  case 0
  then show ?case by (simp split: if_splits)
next
  case (Suc n)
  obtain r w1 where c: "el w = (r, w1)" by (cases "el w")
  let ?w2 = "w1\<lparr>clock := clock w1 + max 0 interval\<rparr>"
  from Suc.prems(1) c have g: "clock w - start < timeout" and p: "position_of r = Some p"
    and rest: "stable_run el timeout interval start p n ?w2"
    by simp_all
  show ?case
  proof (cases "lastPosition = Some p")
    case True
    show ?thesis
    proof (cases "stableCount \<le> stableChecks + 1")
      case True
      with g c p \<open>lastPosition = Some p\<close> show ?thesis
        by (simp add: waitForElementToStopMoving_loop_stable)
    next
      case False
      with Suc.prems(2) True
      have "if lastPosition = Some p then 1 \<le> n \<and> stableCount \<le> (stableChecks + 1) + int n
            else 2 \<le> n \<and> stableCount \<le> int n"
        by auto
      from Suc.IH[OF rest this] False g c p True show ?thesis
        by (simp add: waitForElementToStopMoving_loop_same)
    qed
  next
    case False
    with Suc.prems(2)
    have "if Some p = Some p then 1 \<le> n \<and> stableCount \<le> 1 + int n
          else 2 \<le> n \<and> stableCount \<le> int n"
      by auto
    from Suc.IH[OF rest this] False g c p show ?thesis
      by (simp add: waitForElementToStopMoving_loop_moved)
  qed
qed


lemma waitForElementToBeEnabled_loop_raised:
  assumes "waitForElementToBeEnabled_loop element timeout interval startTime isEnabled st = Some res"
  shows "\<exists>new. snd (snd res) = snd st @ new \<and>
           (\<forall>e. Get_attributes (Inl e) \<in> set new \<longrightarrow>
                  fst res = Rejected (Raised e) \<and> last new = Get_attributes (Inl e))"
  using assms
proof (induction element timeout interval startTime isEnabled st res
    rule: waitForElementToBeEnabled_loop.raw_induct[rotated 1, consumes 1])
  case (1 loop element timeout interval startTime isEnabled st res)
  obtain w tr where st: "st = (w, tr)" by (cases st)
  show ?case
  proof (cases "clock w - startTime < timeout")
    case False
    with 1(2) st have "snd (snd res) = snd st @ []"
      by (auto simp: waitForElementToBeEnabled_end_def split: if_splits)
    then show ?thesis by (intro exI[of _ "[]"]) simp
  next
    case True
    show ?thesis
    proof (cases element)
      case (Inl e)
      with 1(2) st True have "snd (snd res) = snd st @ []" by auto
      then show ?thesis by (intro exI[of _ "[]"]) simp
    next
      case (Inr el)
      obtain r w1 where c: "el w = (r, w1)" by (cases "el w")
      show ?thesis
      proof (cases r)
        case (Inl e)
        with 1(2) st True Inr c
        have "res = (Rejected (Raised e), w1, tr @ [Get_attributes (Inl e)])"
          by (simp add: await_simp)
        with st show ?thesis by (intro exI[of _ "[Get_attributes (Inl e)]"]) simp
      next
        case attrs: (Inr attrs)
        show ?thesis
        proof (cases "enabled attrs")
          case True
          with 1(2) st \<open>clock w - startTime < timeout\<close> Inr c attrs
          have "res = (Resolved, w1, tr @ [Get_attributes (Inr attrs)])"
            by (simp add: await_simp waitForElementToBeEnabled_end_def)
          with st show ?thesis by (intro exI[of _ "[Get_attributes (Inr attrs)]"]) simp
        next
          case False
          let ?st2 = "(w1\<lparr>clock := clock w1 + max 0 interval\<rparr>,
                       tr @ [Get_attributes (Inr attrs), Timer interval])"
          from False 1(2) st \<open>clock w - startTime < timeout\<close> Inr c attrs
          have "loop element timeout interval startTime False ?st2 = Some res"
            by (simp add: await_simp suspend_simp)
          from 1(1)[OF this] obtain new where
            new: "snd (snd res) = snd ?st2 @ new"
              "\<forall>e. Get_attributes (Inl e) \<in> set new \<longrightarrow>
                  fst res = Rejected (Raised e) \<and> last new = Get_attributes (Inl e)"
            by blast
          let ?new = "[Get_attributes (Inr attrs), Timer interval] @ new"
          have "snd (snd res) = snd st @ ?new" using new(1) st by simp
          moreover have "\<forall>e. Get_attributes (Inl e) \<in> set ?new \<longrightarrow>
                  fst res = Rejected (Raised e) \<and> last ?new = Get_attributes (Inl e)"
            using new(2) by auto
          ultimately show ?thesis by blast
        qed
      qed
    qed
  qed
qed



lemma position_of_at_position [simp]:
  "position_of (at_position a b) = Some \<lparr>pos_x = a, pos_y = b\<rparr>"
  by (simp add: position_of_def at_position_def)









lemma waitUntil_trace:
  assumes "waitUntil condition interval timeout w = Some (r, w', tr)"
  obtains ds res where "tr = rounds ds @ [Condition res]" "r = verdict timeout res"
    "\<forall>d\<in>set ds. d = interval \<or> (0 < d \<and> d < interval)"
proof -
  from assms have run: "waitUntil_loop condition interval timeout (clock w + timeout) (w, []) = Some (r, w', tr)"
    by (simp add: waitUntil_def Let_def)
  from waitUntil_loop_shape[OF run] obtain ds res where
    tr: "tr = rounds ds @ [Condition res]" and r: "r = verdict timeout res" by auto
  from waitUntil_loop_durations[OF run] tr have
    "\<forall>d\<in>set ds. d = interval \<or> (0 < d \<and> d < interval)"
    by (simp add: suspensions_rounds)
  with tr r show ?thesis by (rule that)
qed

section \<open>The condition poller: waitUntil\<close>

text \<open>
  C1. For every condition and every \<open>interval \<ge> 0\<close>, \<open>waitUntil\<close> computes the deadline
  \<open>endTime = start + timeout\<close> once, at the start of the call, and then behaves as the
  specification's ConditionPoller does for that one deadline: a run of \<open>waitUntil\<close> gives
  a result exactly when \<open>condition_poller\<close> derives it from the first evaluation on, with
  \<open>clock w + timeout\<close> as the deadline of every round. So the condition is evaluated; true
  ends the call with success at once; false at or past the deadline ends it with the error
  \<^verbatim>\<open>Condition not met within <timeout>ms.\<close>; false before the deadline suspends the
  call for \<open>min interval (endTime - now)\<close> and evaluates again, against the same deadline.
  The message carries the configured timeout: for \<open>0 \<le> timeout \<le> 2^53\<close> the text between
  \<^verbatim>\<open>Condition not met within \<close> and \<^verbatim>\<open>ms.\<close> is a string of decimal digits whose value
  is \<open>timeout\<close>; for a larger Number it is the printed form of a number that reads back as
  \<open>timeout\<close>. (The first part needs no bound on \<open>timeout\<close>.)
\<close>

theorem waitUntil_refines_condition_poller:
  "0 \<le> interval \<Longrightarrow>
   ((waitUntil condition interval timeout w = Some res) =
      condition_poller condition interval timeout (clock w + timeout) (w, []) res) \<and>
   (0 \<le> timeout \<and> timeout \<le> 9007199254740992 \<longrightarrow>
      (\<exists>ds. timeout_message timeout = ''Condition not met within '' @ ds @ ''ms.'' \<and>
            decimal_value ds = Some timeout)) \<and>
   (9007199254740992 < timeout \<and> nearest_double timeout = timeout \<longrightarrow>
      (\<exists>c. timeout_message timeout = ''Condition not met within '' @ number_digits c @ ''ms.'' \<and>
           nearest_double c = timeout))"
proof (intro conjI impI)
  assume "0 \<le> interval"
  then show "(waitUntil condition interval timeout w = Some res) =
      condition_poller condition interval timeout (clock w + timeout) (w, []) res"
    unfolding waitUntil_def Let_def
    using waitUntil_loop_sound waitUntil_loop_complete by blast
next
  assume "0 \<le> timeout \<and> timeout \<le> 9007199254740992"
  then have "timeout_message timeout = ''Condition not met within '' @ decimal timeout @ ''ms.''"
    and "decimal_value (decimal timeout) = Some timeout"
    by (simp_all only: timeout_message_def Number_toString_safe decimal_value_decimal)
  then show "\<exists>ds. timeout_message timeout = ''Condition not met within '' @ ds @ ''ms.'' \<and>
            decimal_value ds = Some timeout"
    by blast
next
  assume "9007199254740992 < timeout \<and> nearest_double timeout = timeout"
  then have "timeout_message timeout =
      ''Condition not met within '' @ number_digits (shortest_decimal timeout) @ ''ms.''"
    and "nearest_double (shortest_decimal timeout) = timeout"
    using Number_toString_large[of timeout] by (simp_all only: timeout_message_def)
  then show "\<exists>c. timeout_message timeout = ''Condition not met within '' @ number_digits c @ ''ms.'' \<and>
           nearest_double c = timeout"
    by blast
qed

theorem waitUntil_refines_condition_poller_witness:
  "(0::int) \<le> 100 \<and>
   condition_poller never_true 100 250 (clock w0 + 250) (w0, [])
     (Rejected (Error ''Condition not met within 250ms.''), \<lparr>clock = 250, env = 4\<rparr>,
      [Condition (Inr False), Timer 100, Condition (Inr False), Timer 100,
       Condition (Inr False), Timer 50, Condition (Inr False)]) \<and>
   (\<exists>ds. timeout_message 250 = ''Condition not met within '' @ ds @ ''ms.'' \<and>
         decimal_value ds = Some 250) \<and>
   timeout_message 250 = ''Condition not met within 250ms.'' \<and>
   timeout_message 1000000000000000000000 = ''Condition not met within 1e+21ms.''"
proof -
  have run: "waitUntil never_true 100 250 w0 =
     Some (Rejected (Error ''Condition not met within 250ms.''), \<lparr>clock = 250, env = 4\<rparr>,
      [Condition (Inr False), Timer 100, Condition (Inr False), Timer 100,
       Condition (Inr False), Timer 50, Condition (Inr False)])"
    by code_simp
  have m: "timeout_message 250 = ''Condition not met within 250ms.''" by code_simp
  have big: "timeout_message 1000000000000000000000 = ''Condition not met within 1e+21ms.''"
    by code_simp
  have range: "(0::int) \<le> 250 \<and> (250::int) \<le> 9007199254740992" by simp
  note inst = waitUntil_refines_condition_poller[where interval = 100 and condition = never_true
      and timeout = 250 and w = w0 and res = "(Rejected (Error ''Condition not met within 250ms.''),
        \<lparr>clock = 250, env = 4\<rparr>,
        [Condition (Inr False), Timer 100, Condition (Inr False), Timer 100,
         Condition (Inr False), Timer 50, Condition (Inr False)])"]
  have i: "(0::int) \<le> 100" by simp
  from inst[OF i, THEN conjunct1, THEN iffD1, OF run]
  have a: "condition_poller never_true 100 250 (clock w0 + 250) (w0, [])
     (Rejected (Error ''Condition not met within 250ms.''), \<lparr>clock = 250, env = 4\<rparr>,
      [Condition (Inr False), Timer 100, Condition (Inr False), Timer 100,
       Condition (Inr False), Timer 50, Condition (Inr False)])" .
  from inst[OF i, THEN conjunct2, THEN conjunct1, THEN mp, OF range]
  have b: "\<exists>ds. timeout_message 250 = ''Condition not met within '' @ ds @ ''ms.'' \<and>
         decimal_value ds = Some 250" .
  from i a b m big show ?thesis by (intro conjI)
qed

text \<open>
  C7. If the condition resolves true on its first invocation, \<open>waitUntil\<close> resolves
  successfully, for every interval and every timeout: the trace of the call is the one
  invocation of the condition, with no timer wait in it.
\<close>

theorem waitUntil_true_on_first_call:
  "fst (condition w) = Inr True \<Longrightarrow>
   \<exists>tr. waitUntil condition interval timeout w = Some (Resolved, snd (condition w), tr) \<and>
        tr = [Condition (Inr True)] \<and> suspensions tr = [] \<and> invocations tr = 1"
  by (cases "condition w") (simp add: waitUntil_def waitUntil_loop_true)

theorem waitUntil_true_on_first_call_witness:
  "fst (true_after 0 w0) = Inr True \<and>
   waitUntil (true_after 0) 100 250 w0 =
     Some (Resolved, \<lparr>clock = 0, env = 1\<rparr>, [Condition (Inr True)])"
  using waitUntil_true_on_first_call[of "true_after 0" w0 100 250]
  by (simp add: true_after_def w0_def)

text \<open>
  C8. In an iteration of the loop of \<open>waitUntil\<close> in which the condition resolved false
  and the deadline has not passed, the loop goes on from a state with exactly one timer
  wait appended after the evaluation, of duration \<open>min interval (endTime - now)\<close>, also
  when \<open>interval = 0\<close>. So in the trace of every completed call a timer wait stands
  between any two evaluations of the condition, there is one wait less than there are
  evaluations, and for \<open>interval = 0\<close> every one of these waits has duration 0.
\<close>

theorem waitUntil_suspends_between_evaluations:
  "(condition w = (Inr False, w1) \<and> clock w1 < endTime \<longrightarrow>
      waitUntil_loop condition interval timeout endTime (w, tr) =
      waitUntil_loop condition interval timeout endTime
        (w1\<lparr>clock := clock w1 + max 0 (min interval (endTime - clock w1))\<rparr>,
         tr @ [Condition (Inr False), Timer (min interval (endTime - clock w1))])) \<and>
   (waitUntil condition interval timeout w = Some (r, w', tr') \<longrightarrow>
      yields_between tr' \<and> length (suspensions tr') + 1 = invocations tr' \<and>
      (interval = 0 \<longrightarrow> suspensions tr' = replicate (invocations tr' - 1) 0))"
proof (intro conjI impI)
  assume "condition w = (Inr False, w1) \<and> clock w1 < endTime"
  then show "waitUntil_loop condition interval timeout endTime (w, tr) =
      waitUntil_loop condition interval timeout endTime
        (w1\<lparr>clock := clock w1 + max 0 (min interval (endTime - clock w1))\<rparr>,
         tr @ [Condition (Inr False), Timer (min interval (endTime - clock w1))])"
    by (simp add: waitUntil_loop_retry)
next
  assume "waitUntil condition interval timeout w = Some (r, w', tr')"
  then obtain ds res where tr': "tr' = rounds ds @ [Condition res]"
    by (rule waitUntil_trace)
  show "yields_between tr'" by (simp add: tr' yields_between_rounds)
  show "length (suspensions tr') + 1 = invocations tr'"
    by (simp add: tr' suspensions_rounds invocations_rounds)
next
  assume run: "waitUntil condition interval timeout w = Some (r, w', tr')" and "interval = 0"
  from run obtain ds res where tr': "tr' = rounds ds @ [Condition res]"
    and ds: "\<forall>d\<in>set ds. d = interval \<or> (0 < d \<and> d < interval)"
    by (rule waitUntil_trace)
  from ds \<open>interval = 0\<close> have "\<forall>d\<in>set ds. d = 0" by auto
  then have "ds = replicate (length ds) 0"
    by (simp add: replicate_length_same)
  then show "suspensions tr' = replicate (invocations tr' - 1) 0"
    by (simp add: tr' suspensions_rounds invocations_rounds)
qed

theorem waitUntil_suspends_between_evaluations_witness:
  "waitUntil (true_after 2) 0 100 w0 =
     Some (Resolved, \<lparr>clock = 0, env = 3\<rparr>,
       [Condition (Inr False), Timer 0, Condition (Inr False), Timer 0, Condition (Inr True)]) \<and>
   yields_between
     [Condition (Inr False) :: string event, Timer 0, Condition (Inr False), Timer 0, Condition (Inr True)] \<and>
   suspensions
     [Condition (Inr False) :: string event, Timer 0, Condition (Inr False), Timer 0, Condition (Inr True)] =
     [0, 0] \<and>
   waitUntil_loop (true_after 2) 0 100 100 (w0, []) =
     waitUntil_loop (true_after 2) 0 100 100
       (\<lparr>clock = 0, env = 1\<rparr>, [Condition (Inr False), Timer 0])"
proof -
  have run: "waitUntil (true_after 2) 0 100 w0 =
     Some (Resolved, \<lparr>clock = 0, env = 3\<rparr>,
       [Condition (Inr False), Timer 0, Condition (Inr False), Timer 0, Condition (Inr True)])"
    by code_simp
  have first: "true_after 2 w0 = (Inr False, \<lparr>clock = 0, env = 1\<rparr>) \<and> clock \<lparr>clock = 0, env = 1::nat\<rparr> < 100"
    by (simp add: true_after_def w0_def)
  from waitUntil_suspends_between_evaluations[where condition = "true_after 2" and w = w0
      and ?w1.0 = "\<lparr>clock = 0, env = 1\<rparr>" and endTime = 100 and interval = 0 and timeout = 100
      and tr = "[]" and r = Resolved and w' = "\<lparr>clock = 0, env = 3\<rparr>" and tr' =
      "[Condition (Inr False), Timer 0, Condition (Inr False), Timer 0, Condition (Inr True)]"]
    run first
  show ?thesis by (simp add: numeral_2_eq_2)
qed

text \<open>
  C3, as stated, fails for \<open>interval = 0\<close> and \<open>timeout > 0\<close>: with a clock that only
  timer waits advance, and each wait by exactly its duration, the waits of duration 0 never
  reach the deadline, and the call never returns (so it throws no timeout error).
\<close>

theorem waitUntil_zero_interval_never_returns:
  "(\<forall>w. fst (never_true w) = Inr False \<and> clock (snd (never_true w)) = clock w) \<and>
   waitUntil never_true 0 1 w0 = None"
proof -
  have idle: "\<forall>w. fst (never_true w) = Inr False \<and> clock (snd (never_true w)) = clock w"
    by (simp add: never_true_def)
  have "waitUntil_loop never_true 0 1 (clock w0 + 1) (w0, []) = None"
  proof (cases "waitUntil_loop never_true 0 1 (clock w0 + 1) (w0, [])")
    case (Some res)
    from never_true_spins[OF Some idle] show ?thesis by simp
  qed simp
  with idle show ?thesis by (simp add: waitUntil_def)
qed

text \<open>
  C3, amended. For all \<open>timeout \<ge> 0\<close> and \<open>interval \<ge> 0\<close> with \<open>interval > 0\<close>
  or \<open>timeout = 0\<close>: if the condition always resolves false and takes no time, and every
  timer wait of duration \<open>d\<close> advances the clock by exactly \<open>d\<close>, then \<open>waitUntil\<close>
  throws the timeout error, and the clock at the throw is at least \<open>timeout\<close> and at most
  \<open>timeout + interval\<close> after the start time.
\<close>

theorem waitUntil_times_out:
  assumes "0 \<le> timeout" and "0 \<le> interval" and "0 < interval \<or> timeout = 0"
    and "\<forall>w. fst (condition w) = Inr False \<and> clock (snd (condition w)) = clock w"
  shows "\<exists>w' tr. waitUntil condition interval timeout w =
             Some (Rejected (Error (timeout_message timeout)), w', tr) \<and>
           timeout \<le> clock w' - clock w \<and> clock w' - clock w \<le> timeout + interval"
proof -
  have "clock w \<le> clock w + timeout" "0 < interval \<or> clock w = clock w + timeout"
    using assms(1,3) by auto
  from waitUntil_loop_times_out[OF assms(4) this, of timeout "[]"] assms(2)
  show ?thesis by (auto simp: waitUntil_def)
qed

theorem waitUntil_times_out_witness:
  "\<exists>w' tr. waitUntil never_true 100 250 w0 =
      Some (Rejected (Error ''Condition not met within 250ms.''), w', tr) \<and>
      250 \<le> clock w' - clock w0 \<and> clock w' - clock w0 \<le> 250 + 100"
proof -
  have m: "timeout_message 250 = ''Condition not met within 250ms.''" by code_simp
  show ?thesis
    using waitUntil_times_out[of 250 100 never_true w0]
    by (simp add: never_true_def m)
qed

section \<open>Errors of the callbacks\<close>

text \<open>
  C6. For every error \<open>e\<close>: when the condition given to \<open>waitUntil\<close> raises \<open>e\<close> at
  any evaluation (any state of the loop), the call rejects with \<open>e\<close> itself at that
  evaluation; it is neither wrapped nor retried nor turned into a timeout error. Likewise
  when the attribute fetch of \<open>waitForElementToBeEnabled\<close> raises \<open>e\<close> at any read. For a
  whole call: if the trace of a completed call holds an evaluation (a fetch) that raised
  \<open>e\<close>, the call rejected with \<open>e\<close> and that evaluation (that fetch) is the last thing
  it did.
\<close>

theorem callback_error_propagates:
  "(condition w = (Inl e, w1) \<longrightarrow>
      waitUntil_loop condition interval timeout endTime (w, tr) =
        Some (Rejected (Raised e), w1, tr @ [Condition (Inl e)])) \<and>
   (waitUntil condition interval timeout w = Some (r, w', tr') \<and> Condition (Inl e) \<in> set tr' \<longrightarrow>
      r = Rejected (Raised e) \<and> last tr' = Condition (Inl e)) \<and>
   (clock w - startTime < timeout \<and> el w = (Inl e, w1) \<longrightarrow>
      waitForElementToBeEnabled_loop (Inr el) timeout interval startTime isEnabled (w, tr) =
        Some (Rejected (Raised e), w1, tr @ [Get_attributes (Inl e)])) \<and>
   (waitForElementToBeEnabled element timeout interval w = Some (r, w', tr') \<and>
      Get_attributes (Inl e) \<in> set tr' \<longrightarrow>
      r = Rejected (Raised e) \<and> last tr' = Get_attributes (Inl e))"
proof (intro conjI impI)
  assume "condition w = (Inl e, w1)"
  then show "waitUntil_loop condition interval timeout endTime (w, tr) =
        Some (Rejected (Raised e), w1, tr @ [Condition (Inl e)])"
    by (rule waitUntil_loop_raise)
next
  assume a: "waitUntil condition interval timeout w = Some (r, w', tr') \<and> Condition (Inl e) \<in> set tr'"
  then obtain ds res where tr': "tr' = rounds ds @ [Condition res]" and r: "r = verdict timeout res"
    by (blast elim: waitUntil_trace)
  from a tr' have "Condition (Inl e) \<in> set (rounds ds @ [Condition res])" by simp
  then have "res = Inl e" by (rule raise_in_rounds)
  with tr' r show "r = Rejected (Raised e)" "last tr' = Condition (Inl e)"
    by (simp_all add: verdict_def)
next
  assume "clock w - startTime < timeout \<and> el w = (Inl e, w1)"
  then show "waitForElementToBeEnabled_loop (Inr el) timeout interval startTime isEnabled (w, tr) =
        Some (Rejected (Raised e), w1, tr @ [Get_attributes (Inl e)])"
    by (simp add: waitForElementToBeEnabled_loop_raise)
next
  assume a: "waitForElementToBeEnabled element timeout interval w = Some (r, w', tr') \<and>
      Get_attributes (Inl e) \<in> set tr'"
  then have "waitForElementToBeEnabled_loop element timeout interval (clock w) False (w, []) =
      Some (r, w', tr')"
    by (simp add: waitForElementToBeEnabled_def)
  from waitForElementToBeEnabled_loop_raised[OF this] a
  show "r = Rejected (Raised e)" "last tr' = Get_attributes (Inl e)"
    by auto
qed

theorem callback_error_propagates_witness:
  "waitUntil (throws_after 1 ''boom'') 100 250 w0 =
     Some (Rejected (Raised ''boom''), \<lparr>clock = 100, env = 2\<rparr>,
       [Condition (Inr False), Timer 100, Condition (Inl ''boom'')]) \<and>
   waitForElementToBeEnabled (Inr fails_second) 250 100 w0 =
     Some (Rejected (Raised ''gone''), \<lparr>clock = 100, env = 2\<rparr>,
       [Get_attributes (enabled_is False), Timer 100, Get_attributes (Inl ''gone'')]) \<and>
   last [Get_attributes (enabled_is False), Timer 100, Get_attributes (Inl ''gone'')] =
     Get_attributes (Inl ''gone'')"
proof -
  have a: "waitUntil (throws_after 1 ''boom'') 100 250 w0 =
     Some (Rejected (Raised ''boom''), \<lparr>clock = 100, env = 2\<rparr>,
       [Condition (Inr False), Timer 100, Condition (Inl ''boom'')])"
    by code_simp
  have b: "waitForElementToBeEnabled (Inr fails_second) 250 100 w0 =
     Some (Rejected (Raised ''gone''), \<lparr>clock = 100, env = 2\<rparr>,
       [Get_attributes (enabled_is False), Timer 100, Get_attributes (Inl ''gone'')])"
    by code_simp
  from callback_error_propagates[where condition = "throws_after 1 ''boom''" and interval = 100
      and timeout = 250 and w = w0 and e = "''boom''" and r = "Rejected (Raised ''boom'')"
      and w' = "\<lparr>clock = 100, env = 2\<rparr>"
      and tr' = "[Condition (Inr False), Timer 100, Condition (Inl ''boom'')]"]
    callback_error_propagates[where element = "Inr fails_second" and interval = 100
      and timeout = 250 and w = w0 and e = "''gone''" and r = "Rejected (Raised ''gone'')"
      and w' = "\<lparr>clock = 100, env = 2\<rparr>"
      and tr' = "[Get_attributes (enabled_is False), Timer 100, Get_attributes (Inl ''gone'')]"]
    a b
  show ?thesis by simp
qed

section \<open>The enabled poller: waitForElementToBeEnabled\<close>

text \<open>
  C10. For every \<open>timeout \<le> 0\<close> and any interval, \<open>waitForElementToBeEnabled\<close> throws
  \<^verbatim>\<open>Element is not enabled\<close> with an empty trace: the element is not read even once,
  whatever it is. \<open>waitUntil\<close> with the same timeout evaluates its condition: when the
  condition does not set the clock back, the call ends after exactly one evaluation, with
  the outcome that evaluation decides; and every completed call of \<open>waitUntil\<close> has
  evaluated its condition at least once.
\<close>

theorem waitForElementToBeEnabled_nonpositive_timeout:
  "timeout \<le> 0 \<Longrightarrow>
   waitForElementToBeEnabled element timeout interval w =
     Some (Rejected (Error ''Element is not enabled''), w, []) \<and>
   (clock w \<le> clock (snd (condition w)) \<longrightarrow>
    waitUntil condition interval timeout w =
      Some (verdict timeout (fst (condition w)), snd (condition w),
            [Condition (fst (condition w))])) \<and>
   (waitUntil condition interval timeout w = Some (r, w', tr) \<longrightarrow> 1 \<le> invocations tr)"
proof (intro conjI impI)
  assume "waitUntil condition interval timeout w = Some (r, w', tr)"
  then obtain ds res where "tr = rounds ds @ [Condition res]"
    by (rule waitUntil_trace)
  then show "1 \<le> invocations tr"
    by (simp add: invocations_rounds)
next
  assume "timeout \<le> 0"
  then show "waitForElementToBeEnabled element timeout interval w =
     Some (Rejected (Error ''Element is not enabled''), w, [])"
    by (simp add: waitForElementToBeEnabled_def waitForElementToBeEnabled_loop_late
        not_enabled_message_def)
next
  assume t: "timeout \<le> 0" and mono: "clock w \<le> clock (snd (condition w))"
  obtain r w1 where c: "condition w = (r, w1)" by (cases "condition w")
  with t mono have late: "clock w + timeout \<le> clock w1" by simp
  show "waitUntil condition interval timeout w =
      Some (verdict timeout (fst (condition w)), snd (condition w),
            [Condition (fst (condition w))])"
  proof (cases r)
    case (Inl e)
    with c show ?thesis
      by (simp add: waitUntil_def waitUntil_loop_raise verdict_def)
  next
    case (Inr b)
    with c late show ?thesis
      by (cases b)
         (simp_all add: waitUntil_def waitUntil_loop_true waitUntil_loop_deadline verdict_def)
  qed
qed

theorem waitForElementToBeEnabled_nonpositive_timeout_witness:
  "(0::int) \<le> 0 \<and>
   waitForElementToBeEnabled (Inr always_enabled) 0 100 w0 =
     Some (Rejected (Error ''Element is not enabled''), w0, []) \<and>
   waitUntil never_true 100 0 w0 =
     Some (Rejected (Error ''Condition not met within 0ms.''), \<lparr>clock = 0, env = 1\<rparr>,
           [Condition (Inr False)])"
proof -
  have m: "timeout_message 0 = ''Condition not met within 0ms.''" by code_simp
  show ?thesis
    using waitForElementToBeEnabled_nonpositive_timeout[of 0 "Inr always_enabled" 100 w0 never_true]
    by (simp add: never_true_def w0_def verdict_def m)
qed

text \<open>
  C5. \<open>waitForElementToBeEnabled\<close> starts its loop with the start time \<open>clock w\<close> and
  \<open>isEnabled = False\<close>. While the deadline has not passed it reads the element's
  attributes: a read with \<open>enabled\<close> true ends the call with success at once; after a read with
  \<open>enabled\<close> false the call suspends for the full \<open>interval\<close>, whatever time is left before the
  deadline, and reads again. When the deadline has passed without an enabled read it throws
  \<^verbatim>\<open>Element is not enabled\<close>. So with reads that are always false and take no time, and
  \<open>interval > 0\<close>, \<open>timeout > 0\<close>, the call throws when the clock stands at the first
  multiple of \<open>interval\<close> that reaches \<open>timeout\<close>, which can be later than the deadline.
\<close>

theorem waitForElementToBeEnabled_polls_at_fixed_interval:
  "waitForElementToBeEnabled element timeout interval w =
     waitForElementToBeEnabled_loop element timeout interval (clock w) False (w, []) \<and>
   (clock w - startTime < timeout \<and> el w = (Inr attrs, w1) \<and> enabled attrs \<longrightarrow>
      waitForElementToBeEnabled_loop (Inr el) timeout interval startTime isEnabled (w, tr) =
        Some (Resolved, w1, tr @ [Get_attributes (Inr attrs)])) \<and>
   (clock w - startTime < timeout \<and> el w = (Inr attrs, w1) \<and> \<not> enabled attrs \<longrightarrow>
      waitForElementToBeEnabled_loop (Inr el) timeout interval startTime isEnabled (w, tr) =
        waitForElementToBeEnabled_loop (Inr el) timeout interval startTime False
          (w1\<lparr>clock := clock w1 + max 0 interval\<rparr>,
           tr @ [Get_attributes (Inr attrs), Timer interval])) \<and>
   (\<not> clock w - startTime < timeout \<longrightarrow>
      waitForElementToBeEnabled_loop element timeout interval startTime False (w, tr) =
        Some (Rejected (Error ''Element is not enabled''), w, tr)) \<and>
   ((\<forall>v. (\<exists>a. fst (el v) = Inr a \<and> \<not> enabled a) \<and> clock (snd (el v)) = clock v) \<and>
    0 < interval \<and> 0 < timeout \<longrightarrow>
      (\<exists>w' tr'. waitForElementToBeEnabled (Inr el) timeout interval w =
          Some (Rejected (Error ''Element is not enabled''), w', tr') \<and>
          clock w' = clock w + interval * ((timeout + interval - 1) div interval)))"
proof (intro conjI impI)
  show "waitForElementToBeEnabled element timeout interval w =
     waitForElementToBeEnabled_loop element timeout interval (clock w) False (w, [])"
    by (simp add: waitForElementToBeEnabled_def)
next
  assume "clock w - startTime < timeout \<and> el w = (Inr attrs, w1) \<and> enabled attrs"
  then show "waitForElementToBeEnabled_loop (Inr el) timeout interval startTime isEnabled (w, tr) =
        Some (Resolved, w1, tr @ [Get_attributes (Inr attrs)])"
    by (simp add: waitForElementToBeEnabled_loop_enabled)
next
  assume "clock w - startTime < timeout \<and> el w = (Inr attrs, w1) \<and> \<not> enabled attrs"
  then show "waitForElementToBeEnabled_loop (Inr el) timeout interval startTime isEnabled (w, tr) =
        waitForElementToBeEnabled_loop (Inr el) timeout interval startTime False
          (w1\<lparr>clock := clock w1 + max 0 interval\<rparr>,
           tr @ [Get_attributes (Inr attrs), Timer interval])"
    by (simp add: waitForElementToBeEnabled_loop_retry)
next
  assume "\<not> clock w - startTime < timeout"
  then show "waitForElementToBeEnabled_loop element timeout interval startTime False (w, tr) =
        Some (Rejected (Error ''Element is not enabled''), w, tr)"
    by (simp add: waitForElementToBeEnabled_loop_late not_enabled_message_def)
next
  assume a: "(\<forall>v. (\<exists>a. fst (el v) = Inr a \<and> \<not> enabled a) \<and> clock (snd (el v)) = clock v) \<and>
    0 < interval \<and> 0 < timeout"
  then have idle: "\<forall>v. (\<exists>a. fst (el v) = Inr a \<and> \<not> enabled a) \<and> clock (snd (el v)) = clock v"
    and i: "0 < interval" and t: "0 < timeout" by simp_all
  have "clock w \<le> clock w" "(clock w - clock w) mod interval = 0" by simp_all
  from waitForElementToBeEnabled_loop_never[OF idle i this, of timeout "[]"] t
  show "\<exists>w' tr'. waitForElementToBeEnabled (Inr el) timeout interval w =
          Some (Rejected (Error ''Element is not enabled''), w', tr') \<and>
          clock w' = clock w + interval * ((timeout + interval - 1) div interval)"
    by (simp add: waitForElementToBeEnabled_def not_enabled_message_def)
qed

theorem waitForElementToBeEnabled_polls_at_fixed_interval_witness:
  "waitForElementToBeEnabled (Inr never_enabled) 250 100 w0 =
     Some (Rejected (Error ''Element is not enabled''), \<lparr>clock = 300, env = 3\<rparr>,
       [Get_attributes (enabled_is False), Timer 100, Get_attributes (enabled_is False), Timer 100,
        Get_attributes (enabled_is False), Timer 100]) \<and>
   (\<exists>w' tr'. waitForElementToBeEnabled (Inr never_enabled) 250 100 w0 =
       Some (Rejected (Error ''Element is not enabled''), w', tr') \<and> clock w' = 300)"
proof -
  have run: "waitForElementToBeEnabled (Inr never_enabled) 250 100 w0 =
     Some (Rejected (Error ''Element is not enabled''), \<lparr>clock = 300, env = 3\<rparr>,
       [Get_attributes (enabled_is False), Timer 100, Get_attributes (enabled_is False), Timer 100,
        Get_attributes (enabled_is False), Timer 100])"
    by code_simp
  have idle: "\<forall>v. (\<exists>a. fst (never_enabled v) = Inr a \<and> \<not> enabled a) \<and>
      clock (snd (never_enabled v)) = clock v"
    by (simp add: never_enabled_def scripted_def enabled_is_def)
  from waitForElementToBeEnabled_polls_at_fixed_interval[where el = never_enabled
      and timeout = 250 and interval = 100 and w = w0,
      THEN conjunct2, THEN conjunct2, THEN conjunct2, THEN conjunct2] idle
  have "\<exists>w' tr'. waitForElementToBeEnabled (Inr never_enabled) 250 100 w0 =
       Some (Rejected (Error ''Element is not enabled''), w', tr') \<and> clock w' = 300"
    by (simp add: w0_def)
  with run show ?thesis by simp
qed

section \<open>The stability poller: waitForElementToStopMoving\<close>

text \<open>
  C2. When a sample is attempted (the deadline has not passed) and is unavailable,
  \<open>waitForElementToStopMoving\<close> waits the fallback delay of 2000 ms once and resolves
  successfully: the trace ends with that fetch and that one wait, so nothing is thrown and no
  other sample is taken. In particular a call whose first sample is attempted and unavailable
  resolves with the trace of one fetch and one wait of 2000 ms. A sample is unavailable
  exactly when the fetch throws, or the frame is missing, or a coordinate of the frame is not
  a number; \<open>position_of\<close> is what \<^verbatim>\<open>getPosition\<close> computes from the fetch.
\<close>

theorem waitForElementToStopMoving_unavailable_sample:
  "(clock w - start < timeout \<and> el w = (r, w1) \<and> position_of r = None \<longrightarrow>
      waitForElementToStopMoving_loop (Inr el) timeout interval stableCount start
          lastPosition stableChecks (w, tr) =
        Some (Resolved, w1\<lparr>clock := clock w1 + 2000\<rparr>, tr @ [Get_attributes r, Timer 2000])) \<and>
   (0 < timeout_of options \<and> el w = (r, w1) \<and> position_of r = None \<longrightarrow>
      waitForElementToStopMoving (Inr el) options w =
        Some (Resolved, w1\<lparr>clock := clock w1 + 2000\<rparr>, [Get_attributes r, Timer 2000])) \<and>
   getPosition el (w, tr) =
     (position_of (fst (el w)), snd (el w), tr @ [Get_attributes (fst (el w))]) \<and>
   (position_of r = None) =
     (case r of
        Inl e \<Rightarrow> True
      | Inr attrs \<Rightarrow>
          (case frame attrs of
             None \<Rightarrow> True
           | Some f \<Rightarrow> frame_x f = None \<or> frame_y f = None))"
proof (intro conjI impI)
  assume "clock w - start < timeout \<and> el w = (r, w1) \<and> position_of r = None"
  then show "waitForElementToStopMoving_loop (Inr el) timeout interval stableCount start
          lastPosition stableChecks (w, tr) =
        Some (Resolved, w1\<lparr>clock := clock w1 + 2000\<rparr>, tr @ [Get_attributes r, Timer 2000])"
    by (simp add: waitForElementToStopMoving_loop_unavailable)
next
  assume "0 < timeout_of options \<and> el w = (r, w1) \<and> position_of r = None"
  then show "waitForElementToStopMoving (Inr el) options w =
        Some (Resolved, w1\<lparr>clock := clock w1 + 2000\<rparr>, [Get_attributes r, Timer 2000])"
    by (simp add: waitForElementToStopMoving_def waitForElementToStopMoving_loop_unavailable)
next
  show "getPosition el (w, tr) =
     (position_of (fst (el w)), snd (el w), tr @ [Get_attributes (fst (el w))])"
    by (cases "el w") (simp add: getPosition_eq)
next
  show "(position_of r = None) =
     (case r of
        Inl e \<Rightarrow> True
      | Inr attrs \<Rightarrow>
          (case frame attrs of
             None \<Rightarrow> True
           | Some f \<Rightarrow> frame_x f = None \<or> frame_y f = None))"
    by (auto simp: position_of_def split: sum.splits option.splits)
qed

theorem waitForElementToStopMoving_unavailable_sample_witness:
  "(0::int) < timeout_of \<lparr>opt_timeout = None, opt_interval = None, opt_stableCount = None\<rparr> \<and>
   position_of (Inl ''no attributes'' :: string + attributes) = None \<and>
   waitForElementToStopMoving (Inr unavailable)
       \<lparr>opt_timeout = None, opt_interval = None, opt_stableCount = None\<rparr> w0 =
     Some (Resolved, \<lparr>clock = 2000, env = 1\<rparr>,
           [Get_attributes (Inl ''no attributes''), Timer 2000])"
  using waitForElementToStopMoving_unavailable_sample[where el = unavailable and w = w0
      and r = "Inl ''no attributes''" and ?w1.0 = "\<lparr>clock = 0, env = 1\<rparr>"
      and options = "\<lparr>opt_timeout = None, opt_interval = None, opt_stableCount = None\<rparr>"]
  by (simp add: unavailable_def scripted_def w0_def timeout_of_def position_of_def)

text \<open>
  C4, as stated, fails for \<open>stableCount = 1\<close>: the first sample sets \<open>stableChecks\<close> to 1,
  which is \<open>stableCount\<close>, and the call does not resolve; the count is compared with
  \<open>stableCount\<close> only after a sample that equals the baseline. With an element that keeps
  moving, every sample is a run of one sample, and the call throws at the deadline.
\<close>

theorem waitForElementToStopMoving_stableCount_one:
  "stable_run moving 400 200 (clock w0) \<lparr>pos_x = 0, pos_y = 0\<rparr> (nat 1) w0 \<and>
   waitForElementToStopMoving (Inr moving)
       \<lparr>opt_timeout = Some 400, opt_interval = Some 200, opt_stableCount = Some 1\<rparr> w0 =
     Some (Rejected (Error ''Element did not become stable in time''), \<lparr>clock = 400, env = 2\<rparr>,
       [Get_attributes (at_position 0 0), Timer 200, Get_attributes (at_position 1 1), Timer 200])"
proof -
  have "stable_run moving 400 200 (clock w0) \<lparr>pos_x = 0, pos_y = 0\<rparr> (Suc 0) w0"
    by (simp add: moving_def scripted_def w0_def at_position_def position_of_def)
  moreover have "waitForElementToStopMoving (Inr moving)
       \<lparr>opt_timeout = Some 400, opt_interval = Some 200, opt_stableCount = Some 1\<rparr> w0 =
     Some (Rejected (Error ''Element did not become stable in time''), \<lparr>clock = 400, env = 2\<rparr>,
       [Get_attributes (at_position 0 0), Timer 200, Get_attributes (at_position 1 1), Timer 200])"
    by code_simp
  ultimately show ?thesis by simp
qed

text \<open>
  C4, amended. With available samples: the first sample of a call becomes the baseline with
  \<open>stableChecks = 1\<close>; a sample equal to the baseline increments \<open>stableChecks\<close>, and the
  call resolves at that sample when the incremented count is \<open>stableCount\<close> or more, and
  goes on with the incremented count otherwise; a sample that differs from the baseline
  becomes the baseline with \<open>stableChecks = 1\<close>. Hence, for \<open>stableCount \<ge> 2\<close>, a run of
  \<open>stableCount\<close> consecutive equal available samples, each taken before the deadline, makes
  the call resolve successfully, from any state of the loop and so from the start of a call.
\<close>

theorem waitForElementToStopMoving_counts_stable_samples:
  "(0 < timeout_of options \<and> el w = (r, w1) \<and> position_of r = Some p \<longrightarrow>
      waitForElementToStopMoving (Inr el) options w =
        waitForElementToStopMoving_loop (Inr el) (timeout_of options) (interval_of options)
          (stableCount_of options) (clock w) (Some p) 1
          (w1\<lparr>clock := clock w1 + max 0 (interval_of options)\<rparr>,
           [Get_attributes r, Timer (interval_of options)])) \<and>
   (clock w - start < timeout \<and> el w = (r, w1) \<and> position_of r = Some p \<and>
    lastPosition = Some p \<and> stableCount \<le> stableChecks + 1 \<longrightarrow>
      waitForElementToStopMoving_loop (Inr el) timeout interval stableCount start
          lastPosition stableChecks (w, tr) =
        Some (Resolved, w1, tr @ [Get_attributes r])) \<and>
   (clock w - start < timeout \<and> el w = (r, w1) \<and> position_of r = Some p \<and>
    lastPosition = Some p \<and> stableChecks + 1 < stableCount \<longrightarrow>
      waitForElementToStopMoving_loop (Inr el) timeout interval stableCount start
          lastPosition stableChecks (w, tr) =
        waitForElementToStopMoving_loop (Inr el) timeout interval stableCount start
          lastPosition (stableChecks + 1)
          (w1\<lparr>clock := clock w1 + max 0 interval\<rparr>, tr @ [Get_attributes r, Timer interval])) \<and>
   (clock w - start < timeout \<and> el w = (r, w1) \<and> position_of r = Some p \<and>
    lastPosition \<noteq> Some p \<longrightarrow>
      waitForElementToStopMoving_loop (Inr el) timeout interval stableCount start
          lastPosition stableChecks (w, tr) =
        waitForElementToStopMoving_loop (Inr el) timeout interval stableCount start
          (Some p) 1
          (w1\<lparr>clock := clock w1 + max 0 interval\<rparr>, tr @ [Get_attributes r, Timer interval])) \<and>
   (2 \<le> stableCount \<and> 0 \<le> stableChecks \<and>
    stable_run el timeout interval start p (nat stableCount) w \<longrightarrow>
      (\<exists>w' tr'. waitForElementToStopMoving_loop (Inr el) timeout interval stableCount start
          lastPosition stableChecks (w, tr) = Some (Resolved, w', tr'))) \<and>
   (2 \<le> stableCount_of options \<and>
    stable_run el (timeout_of options) (interval_of options) (clock w) p
      (nat (stableCount_of options)) w \<longrightarrow>
      (\<exists>w' tr'. waitForElementToStopMoving (Inr el) options w = Some (Resolved, w', tr')))"
proof (intro conjI impI)
  assume "0 < timeout_of options \<and> el w = (r, w1) \<and> position_of r = Some p"
  then show "waitForElementToStopMoving (Inr el) options w =
        waitForElementToStopMoving_loop (Inr el) (timeout_of options) (interval_of options)
          (stableCount_of options) (clock w) (Some p) 1
          (w1\<lparr>clock := clock w1 + max 0 (interval_of options)\<rparr>,
           [Get_attributes r, Timer (interval_of options)])"
    by (simp add: waitForElementToStopMoving_def
        waitForElementToStopMoving_loop_moved[where p = p and r = r and ?w1.0 = w1])
next
  assume "clock w - start < timeout \<and> el w = (r, w1) \<and> position_of r = Some p \<and>
    lastPosition = Some p \<and> stableCount \<le> stableChecks + 1"
  then show "waitForElementToStopMoving_loop (Inr el) timeout interval stableCount start
          lastPosition stableChecks (w, tr) =
        Some (Resolved, w1, tr @ [Get_attributes r])"
    using waitForElementToStopMoving_loop_stable by blast
next
  assume "clock w - start < timeout \<and> el w = (r, w1) \<and> position_of r = Some p \<and>
    lastPosition = Some p \<and> stableChecks + 1 < stableCount"
  then show "waitForElementToStopMoving_loop (Inr el) timeout interval stableCount start
          lastPosition stableChecks (w, tr) =
        waitForElementToStopMoving_loop (Inr el) timeout interval stableCount start
          lastPosition (stableChecks + 1)
          (w1\<lparr>clock := clock w1 + max 0 interval\<rparr>, tr @ [Get_attributes r, Timer interval])"
    using waitForElementToStopMoving_loop_same by blast
next
  assume "clock w - start < timeout \<and> el w = (r, w1) \<and> position_of r = Some p \<and>
    lastPosition \<noteq> Some p"
  then show "waitForElementToStopMoving_loop (Inr el) timeout interval stableCount start
          lastPosition stableChecks (w, tr) =
        waitForElementToStopMoving_loop (Inr el) timeout interval stableCount start
          (Some p) 1
          (w1\<lparr>clock := clock w1 + max 0 interval\<rparr>, tr @ [Get_attributes r, Timer interval])"
    using waitForElementToStopMoving_loop_moved by blast
next
  assume a: "2 \<le> stableCount \<and> 0 \<le> stableChecks \<and>
    stable_run el timeout interval start p (nat stableCount) w"
  then have "if lastPosition = Some p
      then 1 \<le> nat stableCount \<and> stableCount \<le> stableChecks + int (nat stableCount)
      else 2 \<le> nat stableCount \<and> stableCount \<le> int (nat stableCount)"
    by auto
  with a show "\<exists>w' tr'. waitForElementToStopMoving_loop (Inr el) timeout interval stableCount start
          lastPosition stableChecks (w, tr) = Some (Resolved, w', tr')"
    by (intro stable_run_resolves[where p = p and n = "nat stableCount"]) simp_all
next
  assume a: "2 \<le> stableCount_of options \<and>
    stable_run el (timeout_of options) (interval_of options) (clock w) p
      (nat (stableCount_of options)) w"
  then have "if None = Some p
      then 1 \<le> nat (stableCount_of options) \<and>
           stableCount_of options \<le> 0 + int (nat (stableCount_of options))
      else 2 \<le> nat (stableCount_of options) \<and>
           stableCount_of options \<le> int (nat (stableCount_of options))"
    by auto
  with a show "\<exists>w' tr'. waitForElementToStopMoving (Inr el) options w = Some (Resolved, w', tr')"
    unfolding waitForElementToStopMoving_def Let_def
    by (intro stable_run_resolves[where p = p and n = "nat (stableCount_of options)"]) simp_all
qed

theorem waitForElementToStopMoving_counts_stable_samples_witness:
  "(2 \<le> stableCount_of default_options \<and>
    stable_run resting (timeout_of default_options) (interval_of default_options) (clock w0)
      \<lparr>pos_x = 1, pos_y = 1\<rparr> (nat (stableCount_of default_options)) w0) \<and>
   (\<exists>w' tr'. waitForElementToStopMoving (Inr resting) default_options w0 =
      Some (Resolved, w', tr')) \<and>
   waitForElementToStopMoving (Inr resting) default_options w0 =
     Some (Resolved, \<lparr>clock = 400, env = 3\<rparr>,
       [Get_attributes (at_position 1 1), Timer 200, Get_attributes (at_position 1 1), Timer 200,
        Get_attributes (at_position 1 1)])"
proof -
  have ante: "2 \<le> stableCount_of default_options \<and>
    stable_run resting (timeout_of default_options) (interval_of default_options) (clock w0)
      \<lparr>pos_x = 1, pos_y = 1\<rparr> (nat (stableCount_of default_options)) w0"
    by (simp add: default_options_def timeout_of_def interval_of_def stableCount_of_def
        resting_def scripted_def w0_def at_position_def position_of_def numeral_3_eq_3)
  have run: "waitForElementToStopMoving (Inr resting) default_options w0 =
     Some (Resolved, \<lparr>clock = 400, env = 3\<rparr>,
       [Get_attributes (at_position 1 1), Timer 200, Get_attributes (at_position 1 1), Timer 200,
        Get_attributes (at_position 1 1)])"
    by code_simp
  from waitForElementToStopMoving_counts_stable_samples[where el = resting and w = w0
      and p = "\<lparr>pos_x = 1, pos_y = 1\<rparr>" and options = default_options,
      THEN conjunct2, THEN conjunct2, THEN conjunct2, THEN conjunct2, THEN conjunct2,
      THEN mp, OF ante] ante run
  show ?thesis by blast
qed




end
